theory Spec2Isabelle
  imports Main "HOL-Library.Sublist"
begin

section \<open>Data model\<close>

text \<open>
  The program under verification is the final variant of the transfer script
  (the first file of \<^verbatim>\<open>src/unnamed/part_000\<close>, lines 1 to 244). A Go \<^verbatim>\<open>error\<close> is
  only ever inspected through \<^verbatim>\<open>err.Error()\<close> and \<^verbatim>\<open>%v\<close>, so it is modelled by its
  text. Go pointers are modelled as options, \<open>None\<close> being \<^verbatim>\<open>nil\<close>; of the API's
  \<^verbatim>\<open>youtube.Subscription\<close> only the fields the program reads or writes are kept.
\<close>

type_synonym error = string

record ResourceId =
  ChannelId :: string
  Kind :: string

record SubscriptionSnippet =
  ResourceId :: "ResourceId option"
  Title :: string

record Subscription =
  Snippet :: "SubscriptionSnippet option"

record ChannelImportStatus =
  Channel :: "Subscription option"
  Imported :: bool

section \<open>The outside world\<close>

text \<open>
  Everything the program does to its surroundings is recorded, in order, in a trace:
  lines written to standard output, the fatal log line, the calls to the remote API
  and the bytes handed to the checkpoint file.
\<close>

datatype arg = I nat | S string

datatype 'b event =
    Println string
  | Printf string "arg list"
  | Fatalf string "arg list"
  | List_call
  | Insert_call Subscription
  | Encode_to_file 'b

text \<open>
  The collaborators whose code is not part of the repository are parameters: the
  \<^verbatim>\<open>encoding/gob\<close> codec over an abstract type \<open>'b\<close> of file contents, and the
  destination service, a transition function on an abstract server state \<open>'srv\<close>.
  \<open>gob_Encode\<close> gives the bytes that reached the file and the error, if any;
  \<open>gob_Decode\<close> gives the new value of the slice decoded into and the error, if any;
  \<open>Insert_Do\<close> is \<^verbatim>\<open>Subscriptions.Insert(["snippet"], payload).Do()\<close>.
\<close>

record ('b, 'srv) extern =
  gob_Encode :: "ChannelImportStatus list \<Rightarrow> 'b \<times> error option"
  gob_Decode :: "'b \<Rightarrow> ChannelImportStatus list \<Rightarrow> ChannelImportStatus list \<times> error option"
  Insert_Do :: "'srv \<Rightarrow> Subscription \<Rightarrow> error option \<times> 'srv"

text \<open>
  The mutable surroundings: the content of \<^verbatim>\<open>importStatus.gob\<close> (\<open>None\<close> when there is
  no such file), the errors \<^verbatim>\<open>os.Open\<close> and \<^verbatim>\<open>os.Create\<close> answer with when the file
  system refuses them, the pages the source account's listing delivers together with
  the error \<^verbatim>\<open>Pages\<close> ends with, the destination server, and the trace so far.
\<close>

record ('b, 'srv) world =
  gobfile :: "'b option"
  open_err :: "error option"
  create_err :: "error option"
  source :: "Subscription option list list \<times> error option"
  target :: 'srv
  trace :: "'b event list"

definition emit :: "('b, 'srv) world \<Rightarrow> 'b event \<Rightarrow> ('b, 'srv) world" where
  "emit w e = w\<lparr>trace := trace w @ [e]\<rparr>"

definition os_Open :: "('b, 'srv) world \<Rightarrow> error + 'b" where
  "os_Open w =
     (case open_err w of
        Some e \<Rightarrow> Inl e
      | None \<Rightarrow>
          (case gobfile w of
             None \<Rightarrow> Inl ''open importStatus.gob: no such file or directory''
           | Some b \<Rightarrow> Inr b))"

text \<open>\<^verbatim>\<open>strings.HasSuffix\<close>, as the Go library defines it.\<close>

definition HasSuffix :: "string \<Rightarrow> string \<Rightarrow> bool" where
  "HasSuffix s suff \<longleftrightarrow>
     length s \<ge> length suff \<and> drop (length s - length suff) s = suff"

section \<open>The program\<close>

text \<open>\<^verbatim>\<open>mySubscriptions\<close> (lines 32 to 44): one listing call, the pages appended in order.\<close>

definition mySubscriptions ::
  "('b, 'srv) world \<Rightarrow> (Subscription option list \<times> error option) \<times> ('b, 'srv) world" where
  "mySubscriptions w =
     (let (pages, err) = source w;
          channels = foldl (\<lambda>channels items. channels @ items) [] pages
      in ((channels, err), emit w List_call))"

text \<open>
  \<^verbatim>\<open>writeStatusesToFile\<close> (lines 141 to 158). When \<^verbatim>\<open>os.Create\<close> fails the file is left as
  it was; otherwise the file holds whatever the encoder wrote, error or not.
\<close>

definition writeStatusesToFile ::
  "('b, 'srv) extern \<Rightarrow> ('b, 'srv) world \<Rightarrow> ChannelImportStatus list
     \<Rightarrow> error option \<times> ('b, 'srv) world" where
  "writeStatusesToFile env w channelStatuses =
     (case create_err w of
        Some err \<Rightarrow> (Some err, w)
      | None \<Rightarrow>
          (let w1 = emit w (Println ''Encoding channelStatuses to file'');
               (bytes, err) = gob_Encode env channelStatuses;
               w2 = emit (w1\<lparr>gobfile := Some bytes\<rparr>) (Encode_to_file bytes)
           in (err, w2)))"

text \<open>How one pass through the body of the \<^verbatim>\<open>for ... range\<close> loop ends.\<close>

datatype control = Continue | Break | Panic

text \<open>
  The loop body (lines 204 to 240) at one index. Dereferencing a \<^verbatim>\<open>nil\<close> channel,
  snippet or resource id at line 209 panics before anything is printed.
\<close>

definition body ::
  "('b, 'srv) extern \<Rightarrow> nat \<Rightarrow> ('b, 'srv) world \<times> ChannelImportStatus list
     \<Rightarrow> control \<times> ('b, 'srv) world \<times> ChannelImportStatus list" where
  "body env index st =
     (let (w, channelStatuses) = st;
          channelStatus = channelStatuses ! index
      in case Channel channelStatus of
           None \<Rightarrow> (Panic, w, channelStatuses)
         | Some channel \<Rightarrow>
        (case Snippet channel of
           None \<Rightarrow> (Panic, w, channelStatuses)
         | Some snippet \<Rightarrow>
        (case ResourceId snippet of
           None \<Rightarrow> (Panic, w, channelStatuses)
         | Some resourceId \<Rightarrow>
          (let channelToSubscribeTo =
                 \<lparr>Snippet = Some \<lparr>ResourceId =
                    Some \<lparr>ChannelId = ChannelId resourceId, Kind = ''youtube#channel''\<rparr>,
                    Title = ''''\<rparr>\<rparr>;
               w1 = emit w (Printf ''Attempting to add channel #%v: %s: ''
                              [I index, S (Title snippet)])
           in if Imported channelStatus then
                (Continue, emit w1 (Printf ''already imported, skipping\<newline>'' []),
                 channelStatuses)
              else
                (let (err, srv) = Insert_Do env (target w1) channelToSubscribeTo;
                     w2 = emit (w1\<lparr>target := srv\<rparr>) (Insert_call channelToSubscribeTo)
                 in case err of
                      None \<Rightarrow>
                        (Continue,
                         emit w2 (Printf ''successfully subscribed to channel\<newline>'' []),
                         channelStatuses[index := (channelStatuses ! index)\<lparr>Imported := True\<rparr>])
                    | Some e \<Rightarrow>
                        if HasSuffix e ''subscriptionDuplicate'' then
                          (Continue,
                           emit w2 (Printf
                             ''previously subscribed, marking as imported (%v)\<newline>'' [S e]),
                           channelStatuses[index :=
                             (channelStatuses ! index)\<lparr>Imported := True\<rparr>])
                        else if HasSuffix e ''quotaExceeded'' then
                          (Break,
                           emit w2 (Printf
                             '' quota exceeded, can't import any more today. Stopping\<newline>'' []),
                           channelStatuses)
                        else
                          (Continue,
                           emit w2 (Printf ''stopping with error: %v\<newline>'' [S e]),
                           channelStatuses))))))"

text \<open>How the loop as a whole ends: the range is exhausted, a \<^verbatim>\<open>break\<close>, or a panic.\<close>

datatype loop_end = Exhausted | Broke | Panicked

text \<open>
  The \<^verbatim>\<open>for index, channelStatus := range channelStatuses\<close> loop (lines 203 to 241). Go
  evaluates the length of the slice once, before the first iteration: it is \<open>n\<close>.
\<close>

function range_loop ::
  "('b, 'srv) extern \<Rightarrow> nat \<Rightarrow> nat \<Rightarrow> ('b, 'srv) world \<times> ChannelImportStatus list
     \<Rightarrow> loop_end \<times> ('b, 'srv) world \<times> ChannelImportStatus list" where
  "range_loop env n index st =
     (if index < n then
        (case body env index st of
           (Continue, st') \<Rightarrow> range_loop env n (Suc index) st'
         | (Break, st') \<Rightarrow> (Broke, st')
         | (Panic, st') \<Rightarrow> (Panicked, st'))
      else (Exhausted, st))"
  by pat_completeness auto
termination
  by (relation "measure (\<lambda>(env, n, index, st). n - index)") auto

declare range_loop.simps [simp del]

text \<open>How the process ends: a return from \<^verbatim>\<open>main\<close>, \<^verbatim>\<open>log.Fatalf\<close>, or a panic.\<close>

datatype exit = Returned | Fatal | Panic_exit error

definition nil_dereference :: error where
  "nil_dereference = ''runtime error: invalid memory address or nil pointer dereference''"

text \<open>
  \<^verbatim>\<open>main\<close>, lines 173 to 200: find the existing checkpoint or build a new one. The
  error \<^verbatim>\<open>Decode\<close> returns at line 180 is not looked at.
\<close>

definition main_plan ::
  "('b, 'srv) extern \<Rightarrow> ('b, 'srv) world
     \<Rightarrow> (exit + ChannelImportStatus list) \<times> ('b, 'srv) world" where
  "main_plan env w =
     (let channelStatuses = [] in
      case os_Open w of
        Inr file \<Rightarrow>
          (let w1 = emit w (Println ''Encoded file exists, decoding into channelStatuses'');
               (channelStatuses, _) = gob_Decode env file channelStatuses
           in (Inr channelStatuses, w1))
      | Inl _ \<Rightarrow>
          (let w1 = emit w (Println ''Encoded file doesnt exist, fetching subscriptions'');
               ((sourceChannels, err), w2) = mySubscriptions w1
           in case err of
                Some e \<Rightarrow>
                  (Inl Fatal, emit w2 (Fatalf ''Unable to list source channels: %v'' [S e]))
              | None \<Rightarrow>
                  (let w3 = emit w2 (Println ''Importing into array'');
                       channelStatuses =
                         foldl (\<lambda>channelStatuses channel.
                                  channelStatuses @ [\<lparr>Channel = channel, Imported = False\<rparr>])
                           channelStatuses sourceChannels;
                       (err, w4) = writeStatusesToFile env w3 channelStatuses
                   in case err of
                        Some e \<Rightarrow> (Inl (Panic_exit e), w4)
                      | None \<Rightarrow> (Inr channelStatuses, w4))))"

text \<open>
  \<^verbatim>\<open>main\<close>, lines 202 to 243: the apply loop and the final save, whose result is dropped.
  A panic inside the loop ends the process before line 243.
\<close>

definition main_apply ::
  "('b, 'srv) extern \<Rightarrow> ('b, 'srv) world \<Rightarrow> ChannelImportStatus list
     \<Rightarrow> exit \<times> ('b, 'srv) world" where
  "main_apply env w channelStatuses =
     (let w1 = emit w (Printf ''Importing up to %v unimported channels 1 by 1\<newline>''
                         [I (length channelStatuses)]);
          (e, w2, channelStatuses') =
            range_loop env (length channelStatuses) 0 (w1, channelStatuses)
      in case e of
           Panicked \<Rightarrow> (Panic_exit nil_dereference, w2)
         | _ \<Rightarrow>
             (let (_, w3) = writeStatusesToFile env w2 channelStatuses'
              in (Returned, w3)))"

text \<open>
  \<^verbatim>\<open>main\<close> from line 173 on; lines 161 to 171 obtain the two credentialed services and
  either end the process or leave the surroundings as \<open>w\<close> describes them.
\<close>

definition main :: "('b, 'srv) extern \<Rightarrow> ('b, 'srv) world \<Rightarrow> exit \<times> ('b, 'srv) world" where
  "main env w =
     (case main_plan env w of
        (Inl e, w1) \<Rightarrow> (e, w1)
      | (Inr channelStatuses, w1) \<Rightarrow> main_apply env w1 channelStatuses)"

section \<open>Vocabulary for the properties\<close>

text \<open>
  What the loop body reads from an item: the channel identifier and the title, or
  \<open>None\<close> when one of the three pointers on the way is \<^verbatim>\<open>nil\<close>.
\<close>

definition fields_of :: "ChannelImportStatus \<Rightarrow> (string \<times> string) option" where
  "fields_of channelStatus =
     (case Channel channelStatus of
        None \<Rightarrow> None
      | Some channel \<Rightarrow>
          (case Snippet channel of
             None \<Rightarrow> None
           | Some snippet \<Rightarrow>
               (case ResourceId snippet of
                  None \<Rightarrow> None
                | Some resourceId \<Rightarrow> Some (ChannelId resourceId, Title snippet))))"

text \<open>The insert request of lines 206 to 213 for a channel identifier.\<close>

definition request :: "string \<Rightarrow> Subscription" where
  "request channelId =
     \<lparr>Snippet = Some \<lparr>ResourceId = Some \<lparr>ChannelId = channelId, Kind = ''youtube#channel''\<rparr>,
                      Title = ''''\<rparr>\<rparr>"

text \<open>The progress line of line 215.\<close>

definition attempting :: "nat \<Rightarrow> string \<Rightarrow> 'b event" where
  "attempting index title = Printf ''Attempting to add channel #%v: %s: '' [I index, S title]"

text \<open>The line printed before the loop starts (line 202).\<close>

definition banner :: "nat \<Rightarrow> 'b event" where
  "banner n = Printf ''Importing up to %v unimported channels 1 by 1\<newline>'' [I n]"

text \<open>The assignment \<^verbatim>\<open>channelStatuses[index].Imported = true\<close>, on one item.\<close>

definition mark :: "ChannelImportStatus \<Rightarrow> ChannelImportStatus" where
  "mark c = c\<lparr>Imported := True\<rparr>"

text \<open>
  The surroundings once the insert call for an item has come back: the progress line is
  printed, the call is in the trace and the destination is in its new state.
\<close>

definition called ::
  "('b, 'srv) world \<Rightarrow> nat \<Rightarrow> string \<Rightarrow> string \<Rightarrow> 'srv \<Rightarrow> ('b, 'srv) world" where
  "called w index title channelId srv =
     emit ((emit w (attempting index title))\<lparr>target := srv\<rparr>) (Insert_call (request channelId))"

text \<open>
  The insert request an item is due: none when it is already imported or cannot be
  dereferenced, the request for its channel otherwise.
\<close>

definition due :: "ChannelImportStatus \<Rightarrow> Subscription option" where
  "due c =
     (if Imported c then None
      else map_option (\<lambda>(channelId, title). request channelId) (fields_of c))"

definition requests :: "ChannelImportStatus list \<Rightarrow> Subscription list" where
  "requests cs = List.map_filter due cs"

text \<open>The insert requests in a trace, in order, and the number of listing calls in it.\<close>

fun inserts :: "'b event list \<Rightarrow> Subscription list" where
  "inserts [] = []"
| "inserts (Insert_call p # evs) = p # inserts evs"
| "inserts (_ # evs) = inserts evs"

fun listings :: "'b event list \<Rightarrow> nat" where
  "listings [] = 0"
| "listings (List_call # evs) = Suc (listings evs)"
| "listings (_ # evs) = listings evs"

text \<open>What a destination answers when the given requests reach it one after the other.\<close>

fun replies ::
  "('srv \<Rightarrow> Subscription \<Rightarrow> error option \<times> 'srv) \<Rightarrow> 'srv \<Rightarrow> Subscription list
     \<Rightarrow> error option list" where
  "replies Do srv [] = []"
| "replies Do srv (p # ps) = (case Do srv p of (r, srv') \<Rightarrow> r # replies Do srv' ps)"

text \<open>
  One transfer state is a later stage of another: the same channels in the same order,
  and every item that was imported still is.
\<close>

definition advances :: "ChannelImportStatus list \<Rightarrow> ChannelImportStatus list \<Rightarrow> bool" where
  "advances cs cs' =
     list_all2 (\<lambda>c c'. Channel c' = Channel c \<and> (Imported c \<longrightarrow> Imported c')) cs cs'"

text \<open>
  The apply loop run again and again, each run in surroundings of its own, the transfer
  state one run leaves being the state the next one starts from.
\<close>

fun apply_runs ::
  "('b, 'srv) extern \<Rightarrow> ('b, 'srv) world list \<Rightarrow> ChannelImportStatus list
     \<Rightarrow> ChannelImportStatus list" where
  "apply_runs env [] cs = cs"
| "apply_runs env (w # ws) cs =
     apply_runs env ws (snd (snd (range_loop env (length cs) 0 (w, cs))))"

text \<open>
  The whole program run again and again: the file system is as the previous run left it,
  and each run finds the destination in a state of its own.
\<close>

fun main_runs :: "('b, 'srv) extern \<Rightarrow> 'srv list \<Rightarrow> ('b, 'srv) world \<Rightarrow> ('b, 'srv) world" where
  "main_runs env [] w = w"
| "main_runs env (srv # srvs) w = main_runs env srvs (snd (main env (w\<lparr>target := srv\<rparr>)))"

text \<open>
  The transfer state the checkpoint file holds: what a run of the program would load
  from it, provided the file opens and decodes without error.
\<close>

definition checkpoint ::
  "('b, 'srv) extern \<Rightarrow> ('b, 'srv) world \<Rightarrow> ChannelImportStatus list option" where
  "checkpoint env w =
     (case os_Open w of
        Inl _ \<Rightarrow> None
      | Inr file \<Rightarrow>
          (case gob_Decode env file [] of
             (cs, None) \<Rightarrow> Some cs
           | (_, Some _) \<Rightarrow> None))"

text \<open>
  The two assumptions on the codec: what it encoded without error it decodes, into an
  empty slice, to the value encoded; and it encodes every value without error.
\<close>

definition gob_roundtrip :: "('b, 'srv) extern \<Rightarrow> bool" where
  "gob_roundtrip env \<longleftrightarrow>
     (\<forall>cs b. gob_Encode env cs = (b, None) \<longrightarrow> gob_Decode env b [] = (cs, None))"

definition gob_total :: "('b, 'srv) extern \<Rightarrow> bool" where
  "gob_total env \<longleftrightarrow> (\<forall>cs. snd (gob_Encode env cs) = None)"

text \<open>Loading the checkpoint and saving what was loaded, \<open>n\<close> times over.\<close>

fun cycles :: "nat \<Rightarrow> ('b, 'srv) extern \<Rightarrow> ('b, 'srv) world \<Rightarrow> ('b, 'srv) world" where
  "cycles 0 env w = w"
| "cycles (Suc n) env w =
     (case main_plan env w of
        (Inr cs, w1) \<Rightarrow> cycles n env (snd (writeStatusesToFile env w1 cs))
      | (Inl e, w1) \<Rightarrow> w1)"

text \<open>
  The transfer state built on a first run from the channels enumerated, and the
  surroundings once the enumeration has come back.
\<close>

definition fresh :: "Subscription option list \<Rightarrow> ChannelImportStatus list" where
  "fresh channels = map (\<lambda>channel. \<lparr>Channel = channel, Imported = False\<rparr>) channels"

definition listed :: "('b, 'srv) world \<Rightarrow> ('b, 'srv) world" where
  "listed w =
     emit (emit (emit w (Println ''Encoded file doesnt exist, fetching subscriptions''))
             List_call)
       (Println ''Importing into array'')"

section \<open>Example surroundings\<close>

text \<open>
  A codec that keeps the value as it is, \<open>None\<close> standing for a file whose content is
  not a valid encoding; decoding such a file leaves the slice untouched.
\<close>

definition plain_Encode ::
  "ChannelImportStatus list \<Rightarrow> ChannelImportStatus list option \<times> error option" where
  "plain_Encode cs = (Some cs, None)"

definition plain_Decode ::
  "ChannelImportStatus list option \<Rightarrow> ChannelImportStatus list
     \<Rightarrow> ChannelImportStatus list \<times> error option" where
  "plain_Decode b into =
     (case b of Some cs \<Rightarrow> (cs, None) | None \<Rightarrow> (into, Some ''unexpected EOF''))"

text \<open>A destination that answers from a script, and succeeds once the script is used up.\<close>

definition scripted ::
  "error option list \<Rightarrow> Subscription \<Rightarrow> error option \<times> error option list" where
  "scripted srv p = (case srv of [] \<Rightarrow> (None, []) | r # rs \<Rightarrow> (r, rs))"

definition script_env :: "(ChannelImportStatus list option, error option list) extern" where
  "script_env =
     \<lparr>gob_Encode = plain_Encode, gob_Decode = plain_Decode, Insert_Do = scripted\<rparr>"

text \<open>
  A destination that keeps the channel identifiers it is subscribed to: it reports a
  duplicate for a channel it already holds and subscribes to any other.
\<close>

definition subscribing :: "string list \<Rightarrow> Subscription \<Rightarrow> error option \<times> string list" where
  "subscribing held p =
     (case Snippet p of
        None \<Rightarrow> (Some ''googleapi: Error 400: badRequest'', held)
      | Some snippet \<Rightarrow>
          (case ResourceId snippet of
             None \<Rightarrow> (Some ''googleapi: Error 400: badRequest'', held)
           | Some resourceId \<Rightarrow>
               if ChannelId resourceId \<in> set held
               then (Some ''googleapi: Error 400: subscriptionDuplicate'', held)
               else (None, held @ [ChannelId resourceId])))"

definition account_env :: "(ChannelImportStatus list option, string list) extern" where
  "account_env =
     \<lparr>gob_Encode = plain_Encode, gob_Decode = plain_Decode, Insert_Do = subscribing\<rparr>"

definition subscription :: "string \<Rightarrow> string \<Rightarrow> Subscription" where
  "subscription channelId title =
     \<lparr>Snippet = Some \<lparr>ResourceId = Some \<lparr>ChannelId = channelId, Kind = ''youtube#channel''\<rparr>,
                      Title = title\<rparr>\<rparr>"

definition item :: "string \<Rightarrow> string \<Rightarrow> bool \<Rightarrow> ChannelImportStatus" where
  "item channelId title imported =
     \<lparr>Channel = Some (subscription channelId title), Imported = imported\<rparr>"

text \<open>Surroundings with the given checkpoint file and destination, and nothing else.\<close>

definition surroundings :: "'b option \<Rightarrow> 'srv \<Rightarrow> ('b, 'srv) world" where
  "surroundings file srv =
     \<lparr>gobfile = file, open_err = None, create_err = None, source = ([], None),
      target = srv, trace = []\<rparr>"

text \<open>Three pending items, and a destination that takes one insert before its quota is spent.\<close>

definition three_pending :: "ChannelImportStatus list" where
  "three_pending =
     [item ''UC1'' ''One'' False, item ''UC2'' ''Two'' False, item ''UC3'' ''Three'' False]"

definition quota_after_one :: "error option list" where
  "quota_after_one = [None, Some ''googleapi: Error 403: quotaExceeded'']"

text \<open>Two items, the first of them imported.\<close>

definition one_of_two :: "ChannelImportStatus list" where
  "one_of_two = [item ''UC1'' ''One'' True, item ''UC2'' ''Two'' False]"

text \<open>
  A destination that answers every request from a fixed table, whatever came before,
  and counts the calls; and the table that refuses one channel for quota.
\<close>

definition answering ::
  "(Subscription \<Rightarrow> error option) \<Rightarrow> nat \<Rightarrow> Subscription \<Rightarrow> error option \<times> nat" where
  "answering response calls p = (response p, Suc calls)"

definition table_env ::
  "(Subscription \<Rightarrow> error option) \<Rightarrow> (ChannelImportStatus list option, nat) extern" where
  "table_env response =
     \<lparr>gob_Encode = plain_Encode, gob_Decode = plain_Decode, Insert_Do = answering response\<rparr>"

definition quota_on :: "string \<Rightarrow> Subscription \<Rightarrow> error option" where
  "quota_on channelId p =
     (if p = request channelId then Some ''googleapi: Error 403: quotaExceeded'' else None)"

text \<open>A source account with three subscriptions, delivered in two pages.\<close>

definition two_pages :: "Subscription option list list" where
  "two_pages =
     [[Some (subscription ''UC1'' ''One'')],
      [Some (subscription ''UC2'' ''Two''), Some (subscription ''UC3'' ''Three'')]]"

text \<open>
  A first run: no checkpoint file, the source account above, and a destination that
  accepts every insert.
\<close>

definition first_run :: "(ChannelImportStatus list option, error option list) world" where
  "first_run = (surroundings None [])\<lparr>source := (two_pages, None)\<rparr>"

text \<open>
  A checkpoint file that is there but whose content is not a valid encoding; and a
  checkpoint file with one pending item that can be opened but not created anew, next
  to a destination that accepts the insert.
\<close>

definition malformed_checkpoint ::
  "(ChannelImportStatus list option, error option list) world" where
  "malformed_checkpoint = surroundings (Some None) []"

definition readonly_checkpoint ::
  "(ChannelImportStatus list option, error option list) world" where
  "readonly_checkpoint =
     (surroundings (Some (Some [item ''UC1'' ''One'' False])) [None])
       \<lparr>create_err := Some ''open importStatus.gob: permission denied''\<rparr>"

text \<open>
  Two pending items, and two destinations that fail the first insert, one with the
  duplicate signature and one with another error, and accept the second.
\<close>

definition two_pending :: "ChannelImportStatus list" where
  "two_pending = [item ''UC1'' ''One'' False, item ''UC2'' ''Two'' False]"

definition duplicate_then_ok :: "error option list" where
  "duplicate_then_ok = [Some ''googleapi: Error 400: subscriptionDuplicate'', None]"

definition not_found_then_ok :: "error option list" where
  "not_found_then_ok = [Some ''googleapi: Error 404: subscriberNotFound'', None]"

section \<open>The loop body, case by case\<close>

lemma body_nil:
  "fields_of (cs ! i) = None \<Longrightarrow> body env i (w, cs) = (Panic, w, cs)"
  by (simp add: body_def fields_of_def split: option.splits)

lemma body_imported:
  "fields_of (cs ! i) = Some (cid, title) \<Longrightarrow> Imported (cs ! i) \<Longrightarrow>
   body env i (w, cs) =
     (Continue, emit (emit w (attempting i title)) (Printf ''already imported, skipping\<newline>'' []), cs)"
  by (simp add: body_def fields_of_def attempting_def split: option.splits)

lemma body_success:
  "fields_of (cs ! i) = Some (cid, title) \<Longrightarrow> \<not> Imported (cs ! i) \<Longrightarrow>
   Insert_Do env (target w) (request cid) = (None, srv) \<Longrightarrow>
   body env i (w, cs) =
     (Continue,
      emit (called w i title cid srv) (Printf ''successfully subscribed to channel\<newline>'' []),
      cs[i := mark (cs ! i)])"
  by (simp add: body_def fields_of_def attempting_def called_def request_def mark_def emit_def split: option.splits)

lemma body_duplicate:
  "fields_of (cs ! i) = Some (cid, title) \<Longrightarrow> \<not> Imported (cs ! i) \<Longrightarrow>
   Insert_Do env (target w) (request cid) = (Some e, srv) \<Longrightarrow>
   HasSuffix e ''subscriptionDuplicate'' \<Longrightarrow>
   body env i (w, cs) =
     (Continue,
      emit (called w i title cid srv)
        (Printf ''previously subscribed, marking as imported (%v)\<newline>'' [S e]),
      cs[i := mark (cs ! i)])"
  by (simp add: body_def fields_of_def attempting_def called_def request_def mark_def emit_def split: option.splits)

lemma body_quota:
  "fields_of (cs ! i) = Some (cid, title) \<Longrightarrow> \<not> Imported (cs ! i) \<Longrightarrow>
   Insert_Do env (target w) (request cid) = (Some e, srv) \<Longrightarrow>
   \<not> HasSuffix e ''subscriptionDuplicate'' \<Longrightarrow> HasSuffix e ''quotaExceeded'' \<Longrightarrow>
   body env i (w, cs) =
     (Break,
      emit (called w i title cid srv)
        (Printf '' quota exceeded, can't import any more today. Stopping\<newline>'' []),
      cs)"
  by (simp add: body_def fields_of_def attempting_def called_def request_def mark_def emit_def split: option.splits)

lemma body_other:
  "fields_of (cs ! i) = Some (cid, title) \<Longrightarrow> \<not> Imported (cs ! i) \<Longrightarrow>
   Insert_Do env (target w) (request cid) = (Some e, srv) \<Longrightarrow>
   \<not> HasSuffix e ''subscriptionDuplicate'' \<Longrightarrow> \<not> HasSuffix e ''quotaExceeded'' \<Longrightarrow>
   body env i (w, cs) =
     (Continue,
      emit (called w i title cid srv) (Printf ''stopping with error: %v\<newline>'' [S e]),
      cs)"
  by (simp add: body_def fields_of_def attempting_def called_def request_def mark_def emit_def split: option.splits)

text \<open>Every pass through the body is one of the six cases above.\<close>

lemma body_cases:
  obtains (nil) "fields_of (cs ! i) = None" "body env i (w, cs) = (Panic, w, cs)"
  | (imported) cid title where "fields_of (cs ! i) = Some (cid, title)" "Imported (cs ! i)"
      "body env i (w, cs) =
        (Continue, emit (emit w (attempting i title))
           (Printf ''already imported, skipping\<newline>'' []), cs)"
  | (success) cid title srv where "fields_of (cs ! i) = Some (cid, title)" "\<not> Imported (cs ! i)"
      "Insert_Do env (target w) (request cid) = (None, srv)"
      "body env i (w, cs) =
        (Continue, emit (called w i title cid srv)
           (Printf ''successfully subscribed to channel\<newline>'' []), cs[i := mark (cs ! i)])"
  | (duplicate) cid title srv e where "fields_of (cs ! i) = Some (cid, title)"
      "\<not> Imported (cs ! i)" "Insert_Do env (target w) (request cid) = (Some e, srv)"
      "HasSuffix e ''subscriptionDuplicate''"
      "body env i (w, cs) =
        (Continue, emit (called w i title cid srv)
           (Printf ''previously subscribed, marking as imported (%v)\<newline>'' [S e]),
         cs[i := mark (cs ! i)])"
  | (quota) cid title srv e where "fields_of (cs ! i) = Some (cid, title)"
      "\<not> Imported (cs ! i)" "Insert_Do env (target w) (request cid) = (Some e, srv)"
      "\<not> HasSuffix e ''subscriptionDuplicate''" "HasSuffix e ''quotaExceeded''"
      "body env i (w, cs) =
        (Break, emit (called w i title cid srv)
           (Printf '' quota exceeded, can't import any more today. Stopping\<newline>'' []), cs)"
  | (other) cid title srv e where "fields_of (cs ! i) = Some (cid, title)"
      "\<not> Imported (cs ! i)" "Insert_Do env (target w) (request cid) = (Some e, srv)"
      "\<not> HasSuffix e ''subscriptionDuplicate''" "\<not> HasSuffix e ''quotaExceeded''"
      "body env i (w, cs) =
        (Continue, emit (called w i title cid srv)
           (Printf ''stopping with error: %v\<newline>'' [S e]), cs)"
proof (cases "fields_of (cs ! i)")
  case None
  show ?thesis by (rule nil[OF None body_nil[OF None]])
next
  case (Some f)
  obtain cid title where f: "f = (cid, title)" by (cases f)
  note fo = Some[unfolded f]
  show ?thesis
  proof (cases "Imported (cs ! i)")
    case True
    show ?thesis by (rule imported[OF fo True body_imported[OF fo True]])
  next
    case ni: False
    obtain r srv where d: "Insert_Do env (target w) (request cid) = (r, srv)"
      by (cases "Insert_Do env (target w) (request cid)")
    show ?thesis
    proof (cases r)
      case None
      note d' = d[unfolded None]
      show ?thesis by (rule success[OF fo ni d' body_success[OF fo ni d']])
    next
      case (Some e)
      note d' = d[unfolded Some]
      show ?thesis
      proof (cases "HasSuffix e ''subscriptionDuplicate''")
        case True
        show ?thesis by (rule duplicate[OF fo ni d' True body_duplicate[OF fo ni d' True]])
      next
        case nd: False
        show ?thesis
        proof (cases "HasSuffix e ''quotaExceeded''")
          case True
          show ?thesis by (rule quota[OF fo ni d' nd True body_quota[OF fo ni d' nd True]])
        next
          case False
          show ?thesis by (rule other[OF fo ni d' nd False body_other[OF fo ni d' nd False]])
        qed
      qed
    qed
  qed
qed

section \<open>The loop\<close>

lemma HasSuffix_last:
  assumes "HasSuffix e s" and "s \<noteq> []"
  shows "last e = last s"
proof -
  from assms have le: "length s \<le> length e" and d: "drop (length e - length s) e = s"
    by (simp_all add: HasSuffix_def)
  from assms(2) le have "length e - length s < length e"
    by (cases s) simp_all
  then have "last (drop (length e - length s) e) = last e"
    by (rule last_drop)
  with d show ?thesis by simp
qed

lemma quota_not_duplicate:
  "HasSuffix e ''quotaExceeded'' \<Longrightarrow> \<not> HasSuffix e ''subscriptionDuplicate''"
proof
  assume q: "HasSuffix e ''quotaExceeded''" and d: "HasSuffix e ''subscriptionDuplicate''"
  have "last e = CHR ''d''" using HasSuffix_last[OF q] by simp
  moreover have "last e = CHR ''e''" using HasSuffix_last[OF d] by simp
  ultimately have "CHR ''d'' = CHR ''e''" by (rule trans[OF sym])
  then show False by simp
qed

lemma range_loop_end: "\<not> i < n \<Longrightarrow> range_loop env n i st = (Exhausted, st)"
  by (simp add: range_loop.simps)

lemma range_loop_Continue:
  "i < n \<Longrightarrow> body env i st = (Continue, st') \<Longrightarrow>
   range_loop env n i st = range_loop env n (Suc i) st'"
  by (simp add: range_loop.simps[of env n i])

lemma range_loop_Break:
  "i < n \<Longrightarrow> body env i st = (Break, st') \<Longrightarrow> range_loop env n i st = (Broke, st')"
  by (simp add: range_loop.simps[of env n i])

lemma range_loop_Panic:
  "i < n \<Longrightarrow> body env i st = (Panic, st') \<Longrightarrow> range_loop env n i st = (Panicked, st')"
  by (simp add: range_loop.simps[of env n i])

lemma inserts_append: "inserts (xs @ ys) = inserts xs @ inserts ys"
  by (induction xs rule: inserts.induct) simp_all

lemma listings_append: "listings (xs @ ys) = listings xs + listings ys"
  by (induction xs rule: listings.induct) simp_all

lemma body_frame:
  assumes "body env i (w, cs) = (c, w', cs')"
  shows "gobfile w' = gobfile w \<and> open_err w' = open_err w \<and> create_err w' = create_err w
         \<and> source w' = source w"
  using assms by (cases rule: body_cases[of cs i env w]) (auto simp: emit_def called_def)

lemma body_state:
  assumes "body env i (w, cs) = (c, w', cs')"
  shows "cs' = cs \<or> (cs' = cs[i := mark (cs ! i)] \<and> \<not> Imported (cs ! i))"
  using assms by (cases rule: body_cases[of cs i env w]) auto

lemma body_trace:
  assumes "body env i (w, cs) = (c, w', cs')"
  shows "\<exists>evs. trace w' = trace w @ evs \<and> listings evs = 0
           \<and> inserts evs = (case due (cs ! i) of None \<Rightarrow> [] | Some p \<Rightarrow> [p])"
  using assms
  by (cases rule: body_cases[of cs i env w])
     (auto simp: emit_def called_def due_def attempting_def)

lemma advances_refl: "advances cs cs"
  by (simp add: advances_def list_all2_same)

lemma advances_trans: "advances cs cs' \<Longrightarrow> advances cs' cs'' \<Longrightarrow> advances cs cs''"
  unfolding advances_def list_all2_conv_all_nth by auto

lemma advances_mark: "advances cs (cs[i := mark (cs ! i)])"
proof -
  have "advances (cs[i := cs ! i]) (cs[i := mark (cs ! i)])"
    unfolding advances_def
    by (rule list_all2_update_cong) (simp_all add: list_all2_same mark_def)
  then show ?thesis by simp
qed

lemma advancesD:
  assumes "advances cs cs'"
  shows "length cs' = length cs" and "map Channel cs' = map Channel cs"
    and "\<And>j. j < length cs \<Longrightarrow> Imported (cs ! j) \<Longrightarrow> Imported (cs' ! j)"
proof -
  from assms show len: "length cs' = length cs"
    by (simp add: advances_def list_all2_lengthD)
  from assms have nth: "\<And>j. j < length cs \<Longrightarrow>
      Channel (cs' ! j) = Channel (cs ! j) \<and> (Imported (cs ! j) \<longrightarrow> Imported (cs' ! j))"
    by (simp add: advances_def list_all2_conv_all_nth)
  from len nth show "map Channel cs' = map Channel cs"
    by (simp add: list_eq_iff_nth_eq)
  from nth show "\<And>j. j < length cs \<Longrightarrow> Imported (cs ! j) \<Longrightarrow> Imported (cs' ! j)"
    by blast
qed

lemma body_advances:
  assumes "body env i (w, cs) = (c, w', cs')"
  shows "advances cs cs'"
  using body_state[OF assms] advances_refl advances_mark by auto

lemma body_length:
  "body env i (w, cs) = (c, w', cs') \<Longrightarrow> length cs' = length cs"
  using body_state by fastforce

lemma loop_advances:
  "range_loop env n i (w, cs) = (e, w', cs') \<Longrightarrow> advances cs cs'"
proof (induction k \<equiv> "n - i" arbitrary: i w cs)
  case 0
  then have "\<not> i < n" by simp
  with 0 show ?case by (simp add: range_loop_end advances_refl)
next
  case (Suc k)
  then have lt: "i < n" and k: "k = n - Suc i" by simp_all
  obtain c w1 cs1 where b: "body env i (w, cs) = (c, w1, cs1)"
    by (cases "body env i (w, cs)")
  have a1: "advances cs cs1" by (rule body_advances[OF b])
  show ?case
  proof (cases c)
    case Continue
    with Suc.prems lt b have "range_loop env n (Suc i) (w1, cs1) = (e, w', cs')"
      by (simp add: range_loop_Continue)
    from Suc.hyps(1)[OF k this] a1 show ?thesis by (blast intro: advances_trans)
  next
    case Break
    with Suc.prems lt b a1 show ?thesis by (simp add: range_loop_Break)
  next
    case Panic
    with Suc.prems lt b a1 show ?thesis by (simp add: range_loop_Panic)
  qed
qed

lemma loop_frame:
  "range_loop env n i (w, cs) = (e, w', cs') \<Longrightarrow>
   gobfile w' = gobfile w \<and> open_err w' = open_err w \<and> create_err w' = create_err w
   \<and> source w' = source w"
proof (induction k \<equiv> "n - i" arbitrary: i w cs)
  case 0
  then have "\<not> i < n" by simp
  with 0 show ?case by (simp add: range_loop_end)
next
  case (Suc k)
  then have lt: "i < n" and k: "k = n - Suc i" by simp_all
  obtain c w1 cs1 where b: "body env i (w, cs) = (c, w1, cs1)"
    by (cases "body env i (w, cs)")
  note f1 = body_frame[OF b]
  show ?case
  proof (cases c)
    case Continue
    with Suc.prems lt b have "range_loop env n (Suc i) (w1, cs1) = (e, w', cs')"
      by (simp add: range_loop_Continue)
    from Suc.hyps(1)[OF k this] f1 show ?thesis by simp
  next
    case Break
    with Suc.prems lt b f1 show ?thesis by (simp add: range_loop_Break)
  next
    case Panic
    with Suc.prems lt b f1 show ?thesis by (simp add: range_loop_Panic)
  qed
qed

lemma requests_drop:
  "i < length cs \<Longrightarrow>
   requests (drop i cs) = (case due (cs ! i) of None \<Rightarrow> [] | Some p \<Rightarrow> [p]) @ requests (drop (Suc i) cs)"
  by (simp add: requests_def Cons_nth_drop_Suc[symmetric] map_filter_simps split: option.splits)

lemma body_drop:
  assumes "body env i (w, cs) = (c, w', cs')"
  shows "drop (Suc i) cs' = drop (Suc i) cs"
  using body_state[OF assms] by auto

lemma loop_trace:
  "n = length cs \<Longrightarrow> range_loop env n i (w, cs) = (e, w', cs') \<Longrightarrow>
   \<exists>evs. trace w' = trace w @ evs \<and> listings evs = 0
         \<and> prefix (inserts evs) (requests (drop i cs))"
proof (induction k \<equiv> "n - i" arbitrary: i w cs)
  case 0
  then have "\<not> i < n" by simp
  with 0 show ?case by (simp add: range_loop_end)
next
  case (Suc k)
  then have lt: "i < n" and k: "k = n - Suc i" by simp_all
  obtain c w1 cs1 where b: "body env i (w, cs) = (c, w1, cs1)"
    by (cases "body env i (w, cs)")
  from body_trace[OF b] obtain evs1 where t1: "trace w1 = trace w @ evs1"
    and l1: "listings evs1 = 0"
    and i1: "inserts evs1 = (case due (cs ! i) of None \<Rightarrow> [] | Some p \<Rightarrow> [p])"
    by blast
  from lt Suc.prems(1) have r: "requests (drop i cs) = inserts evs1 @ requests (drop (Suc i) cs)"
    by (simp add: requests_drop i1)
  show ?case
  proof (cases c)
    case Continue
    with Suc.prems lt b have run: "range_loop env n (Suc i) (w1, cs1) = (e, w', cs')"
      by (simp add: range_loop_Continue)
    have len: "n = length cs1" using body_length[OF b] Suc.prems(1) by simp
    from Suc.hyps(1)[OF k len run] obtain evs2 where t2: "trace w' = trace w1 @ evs2"
      and l2: "listings evs2 = 0"
      and i2: "prefix (inserts evs2) (requests (drop (Suc i) cs1))"
      by blast
    from i2 have "prefix (inserts evs2) (requests (drop (Suc i) cs))"
      by (simp add: body_drop[OF b])
    with t1 t2 l1 l2 r have "trace w' = trace w @ (evs1 @ evs2) \<and> listings (evs1 @ evs2) = 0
        \<and> prefix (inserts (evs1 @ evs2)) (requests (drop i cs))"
      by (simp add: listings_append inserts_append)
    then show ?thesis by blast
  next
    case Break
    with Suc.prems lt b have "w' = w1" by (simp add: range_loop_Break)
    with t1 l1 r show ?thesis by auto
  next
    case Panic
    with Suc.prems lt b have "w' = w1" by (simp add: range_loop_Panic)
    with t1 l1 r show ?thesis by auto
  qed
qed

lemma fields_of_Channel: "Channel c' = Channel c \<Longrightarrow> fields_of c' = fields_of c"
  by (simp add: fields_of_def)

lemma fields_of_mark: "fields_of (mark c) = fields_of c"
  by (simp add: fields_of_def mark_def)

lemma target_called: "target (emit (called w i title cid srv) ev) = srv"
  by (simp add: called_def emit_def)

lemma loop_quota_halt:
  assumes n: "n = length cs"
    and q: "HasSuffix e ''quotaExceeded''"
  shows "i + k < n \<Longrightarrow> (\<forall>j. i \<le> j \<and> j \<le> i + k \<longrightarrow> \<not> Imported (cs ! j)) \<Longrightarrow>
    map fields_of (take (Suc k) (drop i cs)) = map Some fs \<Longrightarrow>
    replies (Insert_Do env) (target w) (map (\<lambda>(channelId, title). request channelId) fs)
      = replicate k None @ [Some e] \<Longrightarrow>
    \<exists>w' cs'. range_loop env n i (w, cs) = (Broke, w', cs') \<and> length cs' = n
      \<and> (\<forall>j<n. cs' ! j = (if i \<le> j \<and> j < i + k then mark (cs ! j) else cs ! j))"
  using n
proof (induction k arbitrary: i w cs fs)
  case 0
  from 0 have lt: "i < length cs" by simp
  from 0(3) lt obtain cid title where fs: "fs = [(cid, title)]"
    and fo: "fields_of (cs ! i) = Some (cid, title)"
    by (cases fs) (auto simp: take_Suc_conv_app_nth Cons_nth_drop_Suc[symmetric])
  from 0(2) have ni: "\<not> Imported (cs ! i)" by simp
  from 0(4) fs obtain srv where d: "Insert_Do env (target w) (request cid) = (Some e, srv)"
    by (cases "Insert_Do env (target w) (request cid)") auto
  note b = body_quota[OF fo ni d quota_not_duplicate[OF q] q]
  from lt 0(5) have "range_loop env n i (w, cs) =
      (Broke, emit (called w i title cid srv)
        (Printf '' quota exceeded, can't import any more today. Stopping\<newline>'' []), cs)"
    by (simp add: range_loop_Break[OF _ b])
  with 0(5) show ?case by auto
next
  case (Suc k)
  from Suc.prems have lt: "i < length cs" and lt': "Suc i + k < n" by simp_all
  from Suc.prems(3) lt obtain cid title fs' where fs: "fs = (cid, title) # fs'"
    and fo: "fields_of (cs ! i) = Some (cid, title)"
    and rest: "map fields_of (take (Suc k) (drop (Suc i) cs)) = map Some fs'"
    by (cases fs) (auto simp: Cons_nth_drop_Suc[symmetric])
  from Suc.prems(2) have ni: "\<not> Imported (cs ! i)" by simp
  from Suc.prems(4) fs obtain srv where d: "Insert_Do env (target w) (request cid) = (None, srv)"
    and rs: "replies (Insert_Do env) srv (map (\<lambda>(channelId, title). request channelId) fs')
      = replicate k None @ [Some e]"
    by (cases "Insert_Do env (target w) (request cid)") auto
  define w1 where "w1 = emit (called w i title cid srv)
      (Printf ''successfully subscribed to channel\<newline>'' [])"
  define cs1 where "cs1 = cs[i := mark (cs ! i)]"
  have b: "body env i (w, cs) = (Continue, w1, cs1)"
    unfolding w1_def cs1_def by (rule body_success[OF fo ni d])
  have step: "range_loop env n i (w, cs) = range_loop env n (Suc i) (w1, cs1)"
    using lt Suc.prems(5) by (simp add: range_loop_Continue[OF _ b])
  have len1: "n = length cs1" using Suc.prems(5) by (simp add: cs1_def)
  have p1: "\<forall>j. Suc i \<le> j \<and> j \<le> Suc i + k \<longrightarrow> \<not> Imported (cs1 ! j)"
    using Suc.prems(2) by (simp add: cs1_def)
  have r1: "map fields_of (take (Suc k) (drop (Suc i) cs1)) = map Some fs'"
    using rest by (simp add: cs1_def)
  have t1: "target w1 = srv" by (simp add: w1_def target_called)
  from Suc.IH[OF lt' p1 r1 rs[folded t1] len1]
  obtain w' cs' where run: "range_loop env n (Suc i) (w1, cs1) = (Broke, w', cs')"
    and len: "length cs' = n"
    and nth: "\<forall>j<n. cs' ! j = (if Suc i \<le> j \<and> j < Suc i + k then mark (cs1 ! j) else cs1 ! j)"
    by blast
  have "\<forall>j<n. cs' ! j = (if i \<le> j \<and> j < i + Suc k then mark (cs ! j) else cs ! j)"
  proof (intro allI impI)
    fix j assume j: "j < n"
    show "cs' ! j = (if i \<le> j \<and> j < i + Suc k then mark (cs ! j) else cs ! j)"
    proof (cases "j = i")
      case True
      with nth j lt show ?thesis by (simp add: cs1_def)
    next
      case False
      with nth j show ?thesis by (auto simp: cs1_def)
    qed
  qed
  with step run len show ?case by simp
qed

text \<open>
  Two runs against destinations that answer alike: \<open>R\<close> relates the states of the two
  destinations, related states give the same answer to the same request and move to
  related states.
\<close>

lemma body_same_replies:
  assumes R: "R (target w1) (target w2)"
    and sim: "\<forall>s1 s2 p. R s1 s2 \<longrightarrow>
      fst (Insert_Do env1 s1 p) = fst (Insert_Do env2 s2 p)
      \<and> R (snd (Insert_Do env1 s1 p)) (snd (Insert_Do env2 s2 p))"
  shows "fst (body env1 i (w1, cs)) = fst (body env2 i (w2, cs))
       \<and> snd (snd (body env1 i (w1, cs))) = snd (snd (body env2 i (w2, cs)))
       \<and> R (target (fst (snd (body env1 i (w1, cs))))) (target (fst (snd (body env2 i (w2, cs)))))"
proof -
  from R sim have a: "\<And>p. fst (Insert_Do env1 (target w1) p) = fst (Insert_Do env2 (target w2) p)"
    and b: "\<And>p. R (snd (Insert_Do env1 (target w1) p)) (snd (Insert_Do env2 (target w2) p))"
    by blast+
  show ?thesis
    using R by (simp add: body_def Let_def split_beta emit_def a b split: option.splits)
qed

lemma loop_same_replies:
  assumes sim: "\<forall>s1 s2 p. R s1 s2 \<longrightarrow>
      fst (Insert_Do env1 s1 p) = fst (Insert_Do env2 s2 p)
      \<and> R (snd (Insert_Do env1 s1 p)) (snd (Insert_Do env2 s2 p))"
  shows "R (target w1) (target w2) \<Longrightarrow>
       fst (range_loop env1 n i (w1, cs)) = fst (range_loop env2 n i (w2, cs))
       \<and> snd (snd (range_loop env1 n i (w1, cs))) = snd (snd (range_loop env2 n i (w2, cs)))"
proof (induction k \<equiv> "n - i" arbitrary: i w1 w2 cs)
  case 0
  then have "\<not> i < n" by simp
  then show ?case by (simp add: range_loop_end)
next
  case (Suc k)
  then have lt: "i < n" and k: "k = n - Suc i" by simp_all
  obtain c w1' cs' where b1: "body env1 i (w1, cs) = (c, w1', cs')"
    by (cases "body env1 i (w1, cs)")
  from body_same_replies[OF Suc.prems sim, of i cs] b1
  obtain w2' where b2: "body env2 i (w2, cs) = (c, w2', cs')" and R': "R (target w1') (target w2')"
    by (cases "body env2 i (w2, cs)") auto
  show ?case
  proof (cases c)
    case Continue
    with lt b1 b2 Suc.hyps(1)[OF k R', of cs'] show ?thesis
      by (simp add: range_loop_Continue)
  next
    case Break
    with lt b1 b2 show ?thesis by (simp add: range_loop_Break)
  next
    case Panic
    with lt b1 b2 show ?thesis by (simp add: range_loop_Panic)
  qed
qed

lemma loop_all_imported:
  "n = length cs \<Longrightarrow> \<forall>c\<in>set cs. Imported c \<and> fields_of c \<noteq> None \<Longrightarrow>
   \<exists>w'. range_loop env n i (w, cs) = (Exhausted, w', cs) \<and> target w' = target w"
proof (induction k \<equiv> "n - i" arbitrary: i w)
  case 0
  then have "\<not> i < n" by simp
  then show ?case by (simp add: range_loop_end)
next
  case (Suc k)
  then have lt: "i < n" and k: "k = n - Suc i" by simp_all
  from lt Suc.prems have "Imported (cs ! i)" and "fields_of (cs ! i) \<noteq> None" by simp_all
  then obtain cid title where fo: "fields_of (cs ! i) = Some (cid, title)" by auto
  note b = body_imported[OF fo \<open>Imported (cs ! i)\<close>, of env w]
  from Suc.hyps(1)[OF k Suc.prems(1) Suc.prems(2)] 
  obtain w' where "range_loop env n (Suc i)
      (emit (emit w (attempting i title)) (Printf ''already imported, skipping\<newline>'' []), cs)
      = (Exhausted, w', cs)"
    and "target w' = target (emit (emit w (attempting i title))
      (Printf ''already imported, skipping\<newline>'' []))"
    by blast
  then show ?case
    by (simp add: range_loop_Continue[OF lt b] emit_def)
qed

section \<open>Saving, loading and the run as a whole\<close>

lemma write_refused:
  "create_err w = Some err \<Longrightarrow> writeStatusesToFile env w cs = (Some err, w)"
  by (simp add: writeStatusesToFile_def)

lemma write_done:
  "create_err w = None \<Longrightarrow>
   writeStatusesToFile env w cs =
     (snd (gob_Encode env cs),
      emit ((emit w (Println ''Encoding channelStatuses to file''))
              \<lparr>gobfile := Some (fst (gob_Encode env cs))\<rparr>)
        (Encode_to_file (fst (gob_Encode env cs))))"
  by (simp add: writeStatusesToFile_def split_beta)

lemma write_frame:
  "open_err (snd (writeStatusesToFile env w cs)) = open_err w
   \<and> create_err (snd (writeStatusesToFile env w cs)) = create_err w
   \<and> source (snd (writeStatusesToFile env w cs)) = source w
   \<and> target (snd (writeStatusesToFile env w cs)) = target w"
  by (cases "create_err w") (simp_all add: write_refused write_done emit_def)

lemma write_trace:
  "\<exists>evs. trace (snd (writeStatusesToFile env w cs)) = trace w @ evs
         \<and> listings evs = 0 \<and> inserts evs = []"
  by (cases "create_err w") (simp_all add: write_refused write_done emit_def)

lemma plan_load:
  "os_Open w = Inr file \<Longrightarrow>
   main_plan env w =
     (Inr (fst (gob_Decode env file [])),
      emit w (Println ''Encoded file exists, decoding into channelStatuses''))"
  by (simp add: main_plan_def split_beta)

lemma foldl_pages: "foldl (\<lambda>channels items. channels @ items) acc pages = acc @ concat pages"
  by (induction pages arbitrary: acc) simp_all

lemma foldl_statuses:
  "foldl (\<lambda>channelStatuses channel. channelStatuses @ [\<lparr>Channel = channel, Imported = False\<rparr>])
     acc sourceChannels
   = acc @ map (\<lambda>channel. \<lparr>Channel = channel, Imported = False\<rparr>) sourceChannels"
  by (induction sourceChannels arbitrary: acc) simp_all

lemma mySubscriptions_eq:
  "source w = (pages, err) \<Longrightarrow> mySubscriptions w = ((concat pages, err), emit w List_call)"
  by (simp add: mySubscriptions_def foldl_pages)

lemma plan_fetch_failed:
  "os_Open w = Inl oe \<Longrightarrow> source w = (pages, Some e) \<Longrightarrow>
   main_plan env w =
     (Inl Fatal,
      emit (emit (emit w (Println ''Encoded file doesnt exist, fetching subscriptions''))
              List_call)
        (Fatalf ''Unable to list source channels: %v'' [S e]))"
  by (simp add: main_plan_def mySubscriptions_eq emit_def)

lemma plan_fetch:
  "os_Open w = Inl oe \<Longrightarrow> source w = (pages, None) \<Longrightarrow>
   main_plan env w =
     (case writeStatusesToFile env
             (emit (emit (emit w
                (Println ''Encoded file doesnt exist, fetching subscriptions''))
                List_call) (Println ''Importing into array''))
             (map (\<lambda>channel. \<lparr>Channel = channel, Imported = False\<rparr>) (concat pages)) of
        (None, w4) \<Rightarrow>
          (Inr (map (\<lambda>channel. \<lparr>Channel = channel, Imported = False\<rparr>) (concat pages)), w4)
      | (Some e, w4) \<Rightarrow> (Inl (Panic_exit e), w4))"
  by (simp add: main_plan_def mySubscriptions_eq emit_def foldl_statuses split_beta Let_def
        split: option.splits prod.splits)

lemma apply_panicked:
  "range_loop env (length cs) 0 (emit w (banner (length cs)), cs) = (Panicked, w2, cs') \<Longrightarrow>
   main_apply env w cs = (Panic_exit nil_dereference, w2)"
  by (simp add: main_apply_def banner_def)

lemma apply_saved:
  "range_loop env (length cs) 0 (emit w (banner (length cs)), cs) = (e, w2, cs') \<Longrightarrow>
   e \<noteq> Panicked \<Longrightarrow>
   main_apply env w cs = (Returned, snd (writeStatusesToFile env w2 cs'))"
  by (cases e) (simp_all add: main_apply_def banner_def split_beta)

lemma main_loaded:
  "os_Open w = Inr file \<Longrightarrow>
   main env w =
     main_apply env (emit w (Println ''Encoded file exists, decoding into channelStatuses''))
       (fst (gob_Decode env file []))"
  by (simp add: main_def plan_load)

lemma os_Open_cong:
  "open_err w' = open_err w \<Longrightarrow> gobfile w' = gobfile w \<Longrightarrow> os_Open w' = os_Open w"
  by (simp add: os_Open_def split: option.splits)

lemma checkpoint_cong:
  "open_err w' = open_err w \<Longrightarrow> gobfile w' = gobfile w \<Longrightarrow>
   checkpoint env w' = checkpoint env w"
  using os_Open_cong[of w' w] by (simp add: checkpoint_def)

lemma checkpoint_SomeD:
  assumes "checkpoint env w = Some cs"
  obtains content where "os_Open w = Inr content" and "gob_Decode env content [] = (cs, None)"
    and "open_err w = None" and "gobfile w = Some content"
  using assms
  by (auto simp: checkpoint_def os_Open_def split: sum.splits option.splits prod.splits)

lemma checkpoint_written:
  assumes "gob_roundtrip env" and "gob_total env" and "open_err w = None"
    and "create_err w = None"
  shows "checkpoint env (snd (writeStatusesToFile env w cs)) = Some cs"
proof -
  obtain b where enc: "gob_Encode env cs = (b, None)"
    using assms(2) by (cases "gob_Encode env cs") (auto simp: gob_total_def dest: spec[of _ cs])
  with assms(1) have dec: "gob_Decode env b [] = (cs, None)"
    by (simp add: gob_roundtrip_def)
  show ?thesis
    using assms(3) enc dec
    by (simp add: write_done[OF assms(4)] checkpoint_def os_Open_def emit_def)
qed

lemma main_apply_checkpoint:
  assumes rt: "gob_roundtrip env" and tot: "gob_total env"
    and cp: "checkpoint env w = Some cs0" and adv: "advances cs0 cs"
  shows "\<exists>cs'. checkpoint env (snd (main_apply env w cs)) = Some cs' \<and> advances cs0 cs'"
proof -
  obtain e w2 cs' where r:
      "range_loop env (length cs) 0 (emit w (banner (length cs)), cs) = (e, w2, cs')"
    by (cases "range_loop env (length cs) 0 (emit w (banner (length cs)), cs)")
  from loop_frame[OF r] have fr: "gobfile w2 = gobfile w" "open_err w2 = open_err w"
    by (simp_all add: emit_def)
  from loop_advances[OF r] adv have adv': "advances cs0 cs'"
    by (blast intro: advances_trans)
  have cp2: "checkpoint env w2 = Some cs0"
    using cp checkpoint_cong[OF fr(2) fr(1)] by simp
  show ?thesis
  proof (cases "e = Panicked")
    case True
    with r have "main_apply env w cs = (Panic_exit nil_dereference, w2)"
      by (simp add: apply_panicked)
    with cp2 advances_trans[OF adv advances_refl] adv show ?thesis
      using advances_refl by auto
  next
    case False
    note m = apply_saved[OF r False]
    show ?thesis
    proof (cases "create_err w2")
      case (Some err)
      with m cp2 show ?thesis using advances_refl by (auto simp: write_refused)
    next
      case None
      from cp2 have "open_err w2 = None" by (rule checkpoint_SomeD)
      from checkpoint_written[OF rt tot this None, of cs'] m adv' show ?thesis by auto
    qed
  qed
qed

lemma main_checkpoint:
  assumes rt: "gob_roundtrip env" and tot: "gob_total env"
    and cp: "checkpoint env w = Some cs"
  shows "\<exists>cs'. checkpoint env (snd (main env w)) = Some cs' \<and> advances cs cs'"
proof -
  from cp obtain content where o: "os_Open w = Inr content" and d: "gob_Decode env content [] = (cs, None)"
    by (rule checkpoint_SomeD)
  have cp1: "checkpoint env
      (emit w (Println ''Encoded file exists, decoding into channelStatuses'')) = Some cs"
    using cp checkpoint_cong[of "emit w (Println ''Encoded file exists, decoding into channelStatuses'')" w env]
    by (simp add: emit_def)
  from main_apply_checkpoint[OF rt tot cp1 advances_refl] show ?thesis
    by (simp add: main_loaded[OF o] d)
qed

lemma main_runs_checkpoint:
  assumes rt: "gob_roundtrip env" and tot: "gob_total env"
  shows "checkpoint env w = Some cs \<Longrightarrow>
    \<exists>cs'. checkpoint env (main_runs env srvs w) = Some cs' \<and> advances cs cs'"
proof (induction srvs arbitrary: w cs)
  case Nil
  then show ?case using advances_refl by simp
next
  case (Cons srv srvs)
  have "checkpoint env (w\<lparr>target := srv\<rparr>) = Some cs"
    using Cons.prems checkpoint_cong[of "w\<lparr>target := srv\<rparr>" w env] by simp
  from main_checkpoint[OF rt tot this] obtain cs1
    where c1: "checkpoint env (snd (main env (w\<lparr>target := srv\<rparr>))) = Some cs1"
      and a1: "advances cs cs1" by blast
  from Cons.IH[OF c1] obtain cs' where
    "checkpoint env (main_runs env srvs (snd (main env (w\<lparr>target := srv\<rparr>)))) = Some cs'"
    and "advances cs1 cs'" by blast
  with a1 show ?case by (auto intro: advances_trans)
qed

lemma apply_runs_advances: "advances cs (apply_runs env ws cs)"
proof (induction ws arbitrary: cs)
  case Nil
  show ?case by (simp add: advances_refl)
next
  case (Cons w ws)
  obtain e w' cs' where r: "range_loop env (length cs) 0 (w, cs) = (e, w', cs')"
    by (cases "range_loop env (length cs) 0 (w, cs)")
  from loop_advances[OF r] Cons.IH[of cs'] r show ?case
    by (auto intro: advances_trans)
qed

section \<open>A failed insert: duplicate, and any other error\<close>

lemma advances_fields:
  assumes "advances cs cs'"
  shows "map fields_of cs' = map fields_of cs"
proof -
  have "map fields_of cs' = map (fields_of \<circ> (\<lambda>c. \<lparr>Channel = c, Imported = False\<rparr>)) (map Channel cs')"
    by (simp add: fields_of_def)
  also have "\<dots> = map (fields_of \<circ> (\<lambda>c. \<lparr>Channel = c, Imported = False\<rparr>)) (map Channel cs)"
    by (simp only: advancesD(2)[OF assms])
  also have "\<dots> = map fields_of cs"
    by (simp add: fields_of_def)
  finally show ?thesis .
qed

lemma loop_no_panic:
  "n = length cs \<Longrightarrow> \<forall>c\<in>set cs. fields_of c \<noteq> None \<Longrightarrow>
   fst (range_loop env n i (w, cs)) \<noteq> Panicked"
proof (induction k \<equiv> "n - i" arbitrary: i w cs)
  case 0
  then have "\<not> i < n" by simp
  then show ?case by (simp add: range_loop_end)
next
  case (Suc k)
  then have lt: "i < n" and k: "k = n - Suc i" by simp_all
  from lt Suc.prems have wf: "fields_of (cs ! i) \<noteq> None" by simp
  obtain c w1 cs1 where b: "body env i (w, cs) = (c, w1, cs1)"
    by (cases "body env i (w, cs)")
  have np: "c \<noteq> Panic"
    using b wf by (cases rule: body_cases[of cs i env w]) auto
  have len: "n = length cs1" using body_length[OF b] Suc.prems(1) by simp
  have "map fields_of cs1 = map fields_of cs"
    by (rule advances_fields[OF body_advances[OF b]])
  then have "fields_of ` set cs1 = fields_of ` set cs"
    by (metis list.set_map)
  with Suc.prems(2) have wf1: "\<forall>c\<in>set cs1. fields_of c \<noteq> None"
    by (metis imageE imageI)
  show ?case
  proof (cases c)
    case Continue
    with lt b Suc.hyps(1)[OF k len wf1] show ?thesis by (simp add: range_loop_Continue)
  next
    case Break
    with lt b show ?thesis by (simp add: range_loop_Break)
  next
    case Panic
    with np show ?thesis by simp
  qed
qed

lemma main_apply_returns:
  assumes "\<forall>c\<in>set cs. fields_of c \<noteq> None"
  shows "fst (main_apply env w cs) = Returned"
proof -
  define w1 where "w1 = emit w (Printf ''Importing up to %v unimported channels 1 by 1\<newline>''
                         [I (length cs)])"
  obtain e w2 cs' where r: "range_loop env (length cs) 0 (w1, cs) = (e, w2, cs')"
    by (cases "range_loop env (length cs) 0 (w1, cs)")
  from loop_no_panic[OF refl assms, of env 0 w1] r have "e \<noteq> Panicked" by simp
  with r show ?thesis
    by (cases e) (simp_all add: main_apply_def w1_def[symmetric] split_beta)
qed

text \<open>
  What the loop does from an index on: the items before that index are not touched
  again, and an item that is reached and can be dereferenced is visited, which shows
  in the trace by its progress line, followed by its insert request when it is pending.
\<close>

lemma loop_below:
  "range_loop env n i (w, cs) = (e, w', cs') \<Longrightarrow> j < i \<Longrightarrow> cs' ! j = cs ! j"
proof (induction k \<equiv> "n - i" arbitrary: i w cs)
  case 0
  then have "\<not> i < n" by simp
  with 0 show ?case by (simp add: range_loop_end)
next
  case (Suc k)
  then have lt: "i < n" and k: "k = n - Suc i" by simp_all
  obtain c w1 cs1 where b: "body env i (w, cs) = (c, w1, cs1)"
    by (cases "body env i (w, cs)")
  from body_state[OF b] Suc.prems(2) have same: "cs1 ! j = cs ! j" by auto
  show ?case
  proof (cases c)
    case Continue
    with Suc.prems lt b have "range_loop env n (Suc i) (w1, cs1) = (e, w', cs')"
      by (simp add: range_loop_Continue)
    from Suc.hyps(1)[OF k this] Suc.prems(2) same show ?thesis by simp
  next
    case Break
    with Suc.prems lt b same show ?thesis by (simp add: range_loop_Break)
  next
    case Panic
    with Suc.prems lt b same show ?thesis by (simp add: range_loop_Panic)
  qed
qed

lemma body_visits:
  assumes "fields_of (cs ! i) = Some (cid, title)" and "body env i (w, cs) = (c, w1, cs1)"
  shows "\<exists>evs. trace w1 = trace w @ attempting i title # evs
           \<and> (\<not> Imported (cs ! i) \<longrightarrow> (\<exists>evs'. evs = Insert_call (request cid) # evs'))"
  using assms
  by (cases rule: body_cases[of cs i env w]) (auto simp: emit_def called_def)

lemma loop_visits:
  assumes n: "n = length cs" and lt: "i < n"
    and fo: "fields_of (cs ! i) = Some (cid, title)"
    and run: "range_loop env n i (w, cs) = (e, w', cs')"
  shows "\<exists>evs. trace w' = trace w @ attempting i title # evs
           \<and> (\<not> Imported (cs ! i) \<longrightarrow> (\<exists>evs'. evs = Insert_call (request cid) # evs'))"
proof -
  obtain c w1 cs1 where b: "body env i (w, cs) = (c, w1, cs1)"
    by (cases "body env i (w, cs)")
  from body_visits[OF fo b] obtain evs1 where t1: "trace w1 = trace w @ attempting i title # evs1"
    and p1: "\<not> Imported (cs ! i) \<longrightarrow> (\<exists>evs'. evs1 = Insert_call (request cid) # evs')"
    by blast
  have "\<exists>evs2. trace w' = trace w1 @ evs2"
  proof (cases c)
    case Continue
    with run lt b have r: "range_loop env n (Suc i) (w1, cs1) = (e, w', cs')"
      by (simp add: range_loop_Continue)
    have "n = length cs1" using body_length[OF b] n by simp
    from loop_trace[OF this r] show ?thesis by blast
  next
    case Break
    with run lt b show ?thesis by (simp add: range_loop_Break)
  next
    case Panic
    with run lt b show ?thesis by (simp add: range_loop_Panic)
  qed
  then obtain evs2 where t2: "trace w' = trace w1 @ evs2" by blast
  have "trace w' = trace w @ attempting i title # (evs1 @ evs2)"
    by (simp add: t2 t1)
  moreover have "\<not> Imported (cs ! i) \<longrightarrow>
      (\<exists>evs'. evs1 @ evs2 = Insert_call (request cid) # evs')"
    using p1 by auto
  ultimately show ?thesis by blast
qed

text \<open>
  After a pass through the body that ends normally at an index, the loop is at the next
  index: the item just handled keeps the value the pass gave it to the end of the run,
  the trace of the run goes on from the trace of the pass, the next item, when there is
  one that can be dereferenced, is visited, and when there is none the run ends with
  the range exhausted.
\<close>

lemma loop_goes_on:
  assumes lt: "i < length cs" and b: "body env i (w, cs) = (Continue, w1, cs1)"
  shows "range_loop env (length cs) i (w, cs) = range_loop env (length cs) (Suc i) (w1, cs1)"
    and "snd (snd (range_loop env (length cs) i (w, cs))) ! i = cs1 ! i"
    and "\<exists>evs. trace (fst (snd (range_loop env (length cs) i (w, cs)))) = trace w1 @ evs"
    and "Suc i < length cs \<Longrightarrow> fields_of (cs ! Suc i) = Some (cid', title') \<Longrightarrow>
         \<exists>evs. trace (fst (snd (range_loop env (length cs) i (w, cs))))
                  = trace w1 @ attempting (Suc i) title' # evs
               \<and> (\<not> Imported (cs ! Suc i) \<longrightarrow>
                    (\<exists>evs'. evs = Insert_call (request cid') # evs'))"
    and "Suc i = length cs \<Longrightarrow> fst (range_loop env (length cs) i (w, cs)) = Exhausted"
proof -
  show step: "range_loop env (length cs) i (w, cs)
      = range_loop env (length cs) (Suc i) (w1, cs1)"
    by (rule range_loop_Continue[OF lt b])
  obtain e w' cs' where r: "range_loop env (length cs) (Suc i) (w1, cs1) = (e, w', cs')"
    by (cases "range_loop env (length cs) (Suc i) (w1, cs1)")
  have len: "length cs = length cs1" using body_length[OF b] by simp
  from loop_below[OF r, of i] show "snd (snd (range_loop env (length cs) i (w, cs))) ! i = cs1 ! i"
    by (simp add: step r)
  from loop_trace[OF len r]
  show "\<exists>evs. trace (fst (snd (range_loop env (length cs) i (w, cs)))) = trace w1 @ evs"
    by (auto simp: step r)
  show "\<exists>evs. trace (fst (snd (range_loop env (length cs) i (w, cs))))
                  = trace w1 @ attempting (Suc i) title' # evs
               \<and> (\<not> Imported (cs ! Suc i) \<longrightarrow>
                    (\<exists>evs'. evs = Insert_call (request cid') # evs'))"
    if nx: "Suc i < length cs" and fo: "fields_of (cs ! Suc i) = Some (cid', title')"
  proof -
    from body_state[OF b] have same: "cs1 ! Suc i = cs ! Suc i" by auto
    from loop_visits[OF len nx fo[folded same] r] show ?thesis
      by (simp add: step r same)
  qed
  show "fst (range_loop env (length cs) i (w, cs)) = Exhausted" if "Suc i = length cs"
    using that by (simp add: step range_loop_end)
qed

lemma trace_called:
  "trace (emit (called w i title cid srv) ev)
     = trace w @ [attempting i title, Insert_call (request cid), ev]"
  by (simp add: called_def emit_def)

text \<open>
  Claim C5. When the insert for a pending item fails with an error whose text ends in
  the duplicate signature \<^verbatim>\<open>subscriptionDuplicate\<close>, the pass through the loop body
  ends normally, the item is marked imported, every other item is left as it was, and
  the loop goes on with the next index. In the run of the loop from that index the item
  is imported to the end, the trace goes on from the three entries of this pass, the
  next item, when there is one, is visited (its progress line comes next in the trace,
  and its insert request after that when it is pending), and when the item was the last
  one the loop ends with the range exhausted.
\<close>

theorem C5_duplicate_marks_imported:
  assumes "index < length channelStatuses"
    and "fields_of (channelStatuses ! index) = Some (channelId, title)"
    and "\<not> Imported (channelStatuses ! index)"
    and "Insert_Do env (target w) (request channelId) = (Some e, srv)"
    and "HasSuffix e ''subscriptionDuplicate''"
  shows "body env index (w, channelStatuses) =
           (Continue,
            emit (called w index title channelId srv)
              (Printf ''previously subscribed, marking as imported (%v)\<newline>'' [S e]),
            channelStatuses[index := (channelStatuses ! index)\<lparr>Imported := True\<rparr>])
       \<and> Imported (channelStatuses[index := (channelStatuses ! index)\<lparr>Imported := True\<rparr>] ! index)
       \<and> range_loop env (length channelStatuses) index (w, channelStatuses) =
           range_loop env (length channelStatuses) (Suc index)
             (emit (called w index title channelId srv)
                (Printf ''previously subscribed, marking as imported (%v)\<newline>'' [S e]),
              channelStatuses[index := (channelStatuses ! index)\<lparr>Imported := True\<rparr>])
       \<and> snd (snd (range_loop env (length channelStatuses) index (w, channelStatuses))) ! index
           = (channelStatuses ! index)\<lparr>Imported := True\<rparr>
       \<and> (\<exists>evs. trace (fst (snd (range_loop env (length channelStatuses) index
                                    (w, channelStatuses))))
                  = trace w @
                    [attempting index title, Insert_call (request channelId),
                     Printf ''previously subscribed, marking as imported (%v)\<newline>'' [S e]]
                    @ evs)
       \<and> (Suc index < length channelStatuses
            \<and> fields_of (channelStatuses ! Suc index) = Some (nextId, nextTitle) \<longrightarrow>
            (\<exists>evs. trace (fst (snd (range_loop env (length channelStatuses) index
                                     (w, channelStatuses))))
                   = trace w @
                     [attempting index title, Insert_call (request channelId),
                      Printf ''previously subscribed, marking as imported (%v)\<newline>'' [S e],
                      attempting (Suc index) nextTitle]
                     @ evs
                \<and> (\<not> Imported (channelStatuses ! Suc index) \<longrightarrow>
                     (\<exists>evs'. evs = Insert_call (request nextId) # evs'))))
       \<and> (Suc index = length channelStatuses \<longrightarrow>
            fst (range_loop env (length channelStatuses) index (w, channelStatuses))
              = Exhausted)"
proof -
  let ?ev = "Printf ''previously subscribed, marking as imported (%v)\<newline>'' [S e]"
  let ?w1 = "emit (called w index title channelId srv) ?ev"
  let ?cs1 = "channelStatuses[index := (channelStatuses ! index)\<lparr>Imported := True\<rparr>]"
  let ?run = "range_loop env (length channelStatuses) index (w, channelStatuses)"
  note b = body_duplicate[OF assms(2-5), unfolded mark_def]
  note G = loop_goes_on[OF assms(1) b]
  have t1: "trace ?w1 = trace w @ [attempting index title, Insert_call (request channelId), ?ev]"
    by (rule trace_called)
  have 2: "Imported (?cs1 ! index)" using assms(1) by simp
  have 4: "snd (snd ?run) ! index = (channelStatuses ! index)\<lparr>Imported := True\<rparr>"
    using G(2) assms(1) by simp
  have 5: "\<exists>evs. trace (fst (snd ?run))
      = trace w @ [attempting index title, Insert_call (request channelId), ?ev] @ evs"
    using G(3) by (simp add: t1)
  have 6: "Suc index < length channelStatuses
            \<and> fields_of (channelStatuses ! Suc index) = Some (nextId, nextTitle) \<longrightarrow>
            (\<exists>evs. trace (fst (snd ?run))
                   = trace w @
                     [attempting index title, Insert_call (request channelId), ?ev,
                      attempting (Suc index) nextTitle]
                     @ evs
                \<and> (\<not> Imported (channelStatuses ! Suc index) \<longrightarrow>
                     (\<exists>evs'. evs = Insert_call (request nextId) # evs')))"
  proof (intro impI, elim conjE)
    assume nx: "Suc index < length channelStatuses"
      and fo: "fields_of (channelStatuses ! Suc index) = Some (nextId, nextTitle)"
    from G(4)[OF nx fo] show "\<exists>evs. trace (fst (snd ?run))
                   = trace w @
                     [attempting index title, Insert_call (request channelId), ?ev,
                      attempting (Suc index) nextTitle]
                     @ evs
                \<and> (\<not> Imported (channelStatuses ! Suc index) \<longrightarrow>
                     (\<exists>evs'. evs = Insert_call (request nextId) # evs'))"
      by (simp add: t1)
  qed
  have 7: "Suc index = length channelStatuses \<longrightarrow> fst ?run = Exhausted"
    using G(5) by blast
  show ?thesis
    by (intro conjI b 2 G(1) 4 5 6 7)
qed

theorem C5_duplicate_marks_imported_witness:
  "(0::nat) < length two_pending
   \<and> fields_of (two_pending ! 0) = Some (''UC1'', ''One'')
   \<and> \<not> Imported (two_pending ! 0)
   \<and> Insert_Do script_env
        (target (surroundings None duplicate_then_ok
                  :: (ChannelImportStatus list option, error option list) world))
        (request ''UC1'')
      = (Some ''googleapi: Error 400: subscriptionDuplicate'', [None])
   \<and> HasSuffix ''googleapi: Error 400: subscriptionDuplicate'' ''subscriptionDuplicate''
   \<and> Suc 0 < length two_pending
   \<and> fields_of (two_pending ! Suc 0) = Some (''UC2'', ''Two'')
   \<and> \<not> Imported (two_pending ! Suc 0)
   \<and> snd (snd (body script_env 0 (surroundings None duplicate_then_ok, two_pending)))
      = [item ''UC1'' ''One'' True, item ''UC2'' ''Two'' False]
   \<and> snd (snd (range_loop script_env (length two_pending) 0
                  (surroundings None duplicate_then_ok, two_pending))) ! 0
      = item ''UC1'' ''One'' True
   \<and> (\<exists>evs. trace (fst (snd (range_loop script_env (length two_pending) 0
                  (surroundings None duplicate_then_ok, two_pending))))
        = trace (surroundings None duplicate_then_ok
                  :: (ChannelImportStatus list option, error option list) world) @
          [attempting 0 ''One'', Insert_call (request ''UC1''),
           Printf ''previously subscribed, marking as imported (%v)\<newline>''
             [S ''googleapi: Error 400: subscriptionDuplicate''],
           attempting (Suc 0) ''Two'', Insert_call (request ''UC2'')] @ evs)
   \<and> range_loop script_env (length two_pending) 0
         (surroundings None duplicate_then_ok, two_pending)
      = (Exhausted,
         (surroundings None [])\<lparr>trace :=
           [attempting 0 ''One'', Insert_call (request ''UC1''),
            Printf ''previously subscribed, marking as imported (%v)\<newline>''
              [S ''googleapi: Error 400: subscriptionDuplicate''],
            attempting 1 ''Two'', Insert_call (request ''UC2''),
            Printf ''successfully subscribed to channel\<newline>'' []]\<rparr>,
         [item ''UC1'' ''One'' True, item ''UC2'' ''Two'' True])"
proof -
  let ?w = "surroundings None duplicate_then_ok
              :: (ChannelImportStatus list option, error option list) world"
  let ?e = "''googleapi: Error 400: subscriptionDuplicate''"
  have h1: "(0::nat) < length two_pending" by (simp add: two_pending_def)
  have h2: "fields_of (two_pending ! 0) = Some (''UC1'', ''One'')"
    by (simp add: two_pending_def fields_of_def item_def subscription_def)
  have h3: "\<not> Imported (two_pending ! 0)" by (simp add: two_pending_def item_def)
  have h4: "Insert_Do script_env (target ?w) (request ''UC1'') = (Some ?e, [None])"
    by (simp add: script_env_def scripted_def surroundings_def duplicate_then_ok_def)
  have h5: "HasSuffix ?e ''subscriptionDuplicate''" by (simp add: HasSuffix_def)
  have n1: "Suc 0 < length two_pending" by (simp add: two_pending_def)
  have n2: "fields_of (two_pending ! Suc 0) = Some (''UC2'', ''Two'')"
    by (simp add: two_pending_def fields_of_def item_def subscription_def)
  have n3: "\<not> Imported (two_pending ! Suc 0)" by (simp add: two_pending_def item_def)
  have m: "two_pending[0 := (two_pending ! 0)\<lparr>Imported := True\<rparr>]
      = [item ''UC1'' ''One'' True, item ''UC2'' ''Two'' False]"
    by (simp add: two_pending_def item_def)
  have m0: "(two_pending ! 0)\<lparr>Imported := True\<rparr> = item ''UC1'' ''One'' True"
    by (simp add: two_pending_def item_def)
  note T = C5_duplicate_marks_imported[OF h1 h2 h3 h4 h5, of "''UC2''" "''Two''"]
  have a: "snd (snd (body script_env 0 (?w, two_pending)))
      = [item ''UC1'' ''One'' True, item ''UC2'' ''Two'' False]"
    using T[THEN conjunct1] by (simp add: m)
  have b: "snd (snd (range_loop script_env (length two_pending) 0 (?w, two_pending))) ! 0
      = item ''UC1'' ''One'' True"
    using T[THEN conjunct2, THEN conjunct2, THEN conjunct2, THEN conjunct1] by (simp only: m0)
  from T n1 n2 n3 obtain evs evs' where
    "trace (fst (snd (range_loop script_env (length two_pending) 0 (?w, two_pending))))
      = trace ?w @ [attempting 0 ''One'', Insert_call (request ''UC1''),
           Printf ''previously subscribed, marking as imported (%v)\<newline>'' [S ?e],
           attempting (Suc 0) ''Two''] @ evs"
    and "evs = Insert_call (request ''UC2'') # evs'"
    by blast
  then have c: "\<exists>evs. trace (fst (snd (range_loop script_env (length two_pending) 0
                  (?w, two_pending))))
        = trace ?w @
          [attempting 0 ''One'', Insert_call (request ''UC1''),
           Printf ''previously subscribed, marking as imported (%v)\<newline>'' [S ?e],
           attempting (Suc 0) ''Two'', Insert_call (request ''UC2'')] @ evs"
    by simp
  have d: "range_loop script_env (length two_pending) 0 (?w, two_pending)
      = (Exhausted,
         (surroundings None [])\<lparr>trace :=
           [attempting 0 ''One'', Insert_call (request ''UC1''),
            Printf ''previously subscribed, marking as imported (%v)\<newline>'' [S ?e],
            attempting 1 ''Two'', Insert_call (request ''UC2''),
            Printf ''successfully subscribed to channel\<newline>'' []]\<rparr>,
         [item ''UC1'' ''One'' True, item ''UC2'' ''Two'' True])"
    by (simp add: range_loop.simps body_def two_pending_def item_def subscription_def
        script_env_def scripted_def surroundings_def duplicate_then_ok_def emit_def
        HasSuffix_def attempting_def request_def)
  show ?thesis by (intro conjI h1 h2 h3 h4 h5 n1 n2 n3 a b c d)
qed

text \<open>
  Claim C6. When the insert for a pending item fails with an error that carries
  neither the duplicate nor the quota signature, the error is printed, the transfer
  state is left as it was and the loop goes on with the next index. In the run of the
  loop from that index the item is as it was, pending, to the end, the trace goes on
  from the three entries of this pass, the next item, when there is one, is visited (its
  progress line comes next in the trace, and its insert request after that when it is
  pending), and when the item was the last one the loop ends with the range exhausted,
  not halted. A run over items that can all be dereferenced never panics and ends with
  a normal return from \<^verbatim>\<open>main\<close>, whatever the destination answered.
\<close>

theorem C6_other_error_continues:
  assumes "index < length channelStatuses"
    and "fields_of (channelStatuses ! index) = Some (channelId, title)"
    and "\<not> Imported (channelStatuses ! index)"
    and "Insert_Do env (target w) (request channelId) = (Some e, srv)"
    and "\<not> HasSuffix e ''subscriptionDuplicate''"
    and "\<not> HasSuffix e ''quotaExceeded''"
  shows "body env index (w, channelStatuses) =
           (Continue,
            emit (called w index title channelId srv)
              (Printf ''stopping with error: %v\<newline>'' [S e]),
            channelStatuses)
       \<and> range_loop env (length channelStatuses) index (w, channelStatuses) =
           range_loop env (length channelStatuses) (Suc index)
             (emit (called w index title channelId srv)
                (Printf ''stopping with error: %v\<newline>'' [S e]),
              channelStatuses)
       \<and> ((\<forall>c\<in>set channelStatuses. fields_of c \<noteq> None) \<longrightarrow>
            fst (range_loop env (length channelStatuses) 0 (w0, channelStatuses)) \<noteq> Panicked
            \<and> fst (main_apply env w0 channelStatuses) = Returned)
       \<and> snd (snd (range_loop env (length channelStatuses) index (w, channelStatuses))) ! index
           = channelStatuses ! index
       \<and> \<not> Imported (snd (snd (range_loop env (length channelStatuses) index
                                    (w, channelStatuses))) ! index)
       \<and> (\<exists>evs. trace (fst (snd (range_loop env (length channelStatuses) index
                                    (w, channelStatuses))))
                  = trace w @
                    [attempting index title, Insert_call (request channelId),
                     Printf ''stopping with error: %v\<newline>'' [S e]]
                    @ evs)
       \<and> (Suc index < length channelStatuses
            \<and> fields_of (channelStatuses ! Suc index) = Some (nextId, nextTitle) \<longrightarrow>
            (\<exists>evs. trace (fst (snd (range_loop env (length channelStatuses) index
                                     (w, channelStatuses))))
                   = trace w @
                     [attempting index title, Insert_call (request channelId),
                      Printf ''stopping with error: %v\<newline>'' [S e],
                      attempting (Suc index) nextTitle]
                     @ evs
                \<and> (\<not> Imported (channelStatuses ! Suc index) \<longrightarrow>
                     (\<exists>evs'. evs = Insert_call (request nextId) # evs'))))
       \<and> (Suc index = length channelStatuses \<longrightarrow>
            fst (range_loop env (length channelStatuses) index (w, channelStatuses))
              = Exhausted)"
proof -
  let ?ev = "Printf ''stopping with error: %v\<newline>'' [S e]"
  let ?w1 = "emit (called w index title channelId srv) ?ev"
  let ?run = "range_loop env (length channelStatuses) index (w, channelStatuses)"
  note b = body_other[OF assms(2-6)]
  note G = loop_goes_on[OF assms(1) b]
  have t1: "trace ?w1 = trace w @ [attempting index title, Insert_call (request channelId), ?ev]"
    by (rule trace_called)
  have 3: "(\<forall>c\<in>set channelStatuses. fields_of c \<noteq> None) \<longrightarrow>
            fst (range_loop env (length channelStatuses) 0 (w0, channelStatuses)) \<noteq> Panicked
            \<and> fst (main_apply env w0 channelStatuses) = Returned"
    by (simp add: main_apply_returns loop_no_panic[OF refl])
  have 4: "snd (snd ?run) ! index = channelStatuses ! index"
    by (rule G(2))
  have 5: "\<not> Imported (snd (snd ?run) ! index)"
    unfolding 4 by (rule assms(3))
  have 6: "\<exists>evs. trace (fst (snd ?run))
      = trace w @ [attempting index title, Insert_call (request channelId), ?ev] @ evs"
    using G(3) by (simp add: t1)
  have 7: "Suc index < length channelStatuses
            \<and> fields_of (channelStatuses ! Suc index) = Some (nextId, nextTitle) \<longrightarrow>
            (\<exists>evs. trace (fst (snd ?run))
                   = trace w @
                     [attempting index title, Insert_call (request channelId), ?ev,
                      attempting (Suc index) nextTitle]
                     @ evs
                \<and> (\<not> Imported (channelStatuses ! Suc index) \<longrightarrow>
                     (\<exists>evs'. evs = Insert_call (request nextId) # evs')))"
  proof (intro impI, elim conjE)
    assume nx: "Suc index < length channelStatuses"
      and fo: "fields_of (channelStatuses ! Suc index) = Some (nextId, nextTitle)"
    from G(4)[OF nx fo] show "\<exists>evs. trace (fst (snd ?run))
                   = trace w @
                     [attempting index title, Insert_call (request channelId), ?ev,
                      attempting (Suc index) nextTitle]
                     @ evs
                \<and> (\<not> Imported (channelStatuses ! Suc index) \<longrightarrow>
                     (\<exists>evs'. evs = Insert_call (request nextId) # evs'))"
      by (simp add: t1)
  qed
  have 8: "Suc index = length channelStatuses \<longrightarrow> fst ?run = Exhausted"
    using G(5) by blast
  show ?thesis
    by (intro conjI b G(1) 3 4 5 6 7 8)
qed

theorem C6_other_error_continues_witness:
  "(0::nat) < length two_pending
   \<and> fields_of (two_pending ! 0) = Some (''UC1'', ''One'')
   \<and> \<not> Imported (two_pending ! 0)
   \<and> Insert_Do script_env
        (target (surroundings None not_found_then_ok
                  :: (ChannelImportStatus list option, error option list) world))
        (request ''UC1'')
      = (Some ''googleapi: Error 404: subscriberNotFound'', [None])
   \<and> \<not> HasSuffix ''googleapi: Error 404: subscriberNotFound'' ''subscriptionDuplicate''
   \<and> \<not> HasSuffix ''googleapi: Error 404: subscriberNotFound'' ''quotaExceeded''
   \<and> Suc 0 < length two_pending
   \<and> fields_of (two_pending ! Suc 0) = Some (''UC2'', ''Two'')
   \<and> \<not> Imported (two_pending ! Suc 0)
   \<and> snd (snd (body script_env 0 (surroundings None not_found_then_ok, two_pending)))
      = two_pending
   \<and> snd (snd (range_loop script_env (length two_pending) 0
                  (surroundings None not_found_then_ok, two_pending))) ! 0
      = item ''UC1'' ''One'' False
   \<and> (\<exists>evs. trace (fst (snd (range_loop script_env (length two_pending) 0
                  (surroundings None not_found_then_ok, two_pending))))
        = trace (surroundings None not_found_then_ok
                  :: (ChannelImportStatus list option, error option list) world) @
          [attempting 0 ''One'', Insert_call (request ''UC1''),
           Printf ''stopping with error: %v\<newline>''
             [S ''googleapi: Error 404: subscriberNotFound''],
           attempting (Suc 0) ''Two'', Insert_call (request ''UC2'')] @ evs)
   \<and> range_loop script_env (length two_pending) 0
         (surroundings None not_found_then_ok, two_pending)
      = (Exhausted,
         (surroundings None [])\<lparr>trace :=
           [attempting 0 ''One'', Insert_call (request ''UC1''),
            Printf ''stopping with error: %v\<newline>''
              [S ''googleapi: Error 404: subscriberNotFound''],
            attempting 1 ''Two'', Insert_call (request ''UC2''),
            Printf ''successfully subscribed to channel\<newline>'' []]\<rparr>,
         [item ''UC1'' ''One'' False, item ''UC2'' ''Two'' True])
   \<and> fst (main_apply script_env (surroundings None not_found_then_ok) two_pending) = Returned"
proof -
  let ?w = "surroundings None not_found_then_ok
              :: (ChannelImportStatus list option, error option list) world"
  let ?e = "''googleapi: Error 404: subscriberNotFound''"
  have h1: "(0::nat) < length two_pending" by (simp add: two_pending_def)
  have h2: "fields_of (two_pending ! 0) = Some (''UC1'', ''One'')"
    by (simp add: two_pending_def fields_of_def item_def subscription_def)
  have h3: "\<not> Imported (two_pending ! 0)" by (simp add: two_pending_def item_def)
  have h4: "Insert_Do script_env (target ?w) (request ''UC1'') = (Some ?e, [None])"
    by (simp add: script_env_def scripted_def surroundings_def not_found_then_ok_def)
  have h5: "\<not> HasSuffix ?e ''subscriptionDuplicate''" by (simp add: HasSuffix_def)
  have h6: "\<not> HasSuffix ?e ''quotaExceeded''" by (simp add: HasSuffix_def)
  have n1: "Suc 0 < length two_pending" by (simp add: two_pending_def)
  have n2: "fields_of (two_pending ! Suc 0) = Some (''UC2'', ''Two'')"
    by (simp add: two_pending_def fields_of_def item_def subscription_def)
  have n3: "\<not> Imported (two_pending ! Suc 0)" by (simp add: two_pending_def item_def)
  have wf: "\<forall>c\<in>set two_pending. fields_of c \<noteq> None"
    by (simp add: two_pending_def fields_of_def item_def subscription_def)
  have m0: "two_pending ! 0 = item ''UC1'' ''One'' False"
    by (simp add: two_pending_def)
  note T = C6_other_error_continues[OF h1 h2 h3 h4 h5 h6, of ?w "''UC2''" "''Two''"]
  have a: "snd (snd (body script_env 0 (?w, two_pending))) = two_pending"
    using T[THEN conjunct1] by simp
  have b: "snd (snd (range_loop script_env (length two_pending) 0 (?w, two_pending))) ! 0
      = item ''UC1'' ''One'' False"
    using T[THEN conjunct2, THEN conjunct2, THEN conjunct2, THEN conjunct1] by (simp only: m0)
  from T n1 n2 n3 obtain evs evs' where
    "trace (fst (snd (range_loop script_env (length two_pending) 0 (?w, two_pending))))
      = trace ?w @ [attempting 0 ''One'', Insert_call (request ''UC1''),
           Printf ''stopping with error: %v\<newline>'' [S ?e],
           attempting (Suc 0) ''Two''] @ evs"
    and "evs = Insert_call (request ''UC2'') # evs'"
    by blast
  then have c: "\<exists>evs. trace (fst (snd (range_loop script_env (length two_pending) 0
                  (?w, two_pending))))
        = trace ?w @
          [attempting 0 ''One'', Insert_call (request ''UC1''),
           Printf ''stopping with error: %v\<newline>'' [S ?e],
           attempting (Suc 0) ''Two'', Insert_call (request ''UC2'')] @ evs"
    by simp
  have d: "range_loop script_env (length two_pending) 0 (?w, two_pending)
      = (Exhausted,
         (surroundings None [])\<lparr>trace :=
           [attempting 0 ''One'', Insert_call (request ''UC1''),
            Printf ''stopping with error: %v\<newline>'' [S ?e],
            attempting 1 ''Two'', Insert_call (request ''UC2''),
            Printf ''successfully subscribed to channel\<newline>'' []]\<rparr>,
         [item ''UC1'' ''One'' False, item ''UC2'' ''Two'' True])"
    by (simp add: range_loop.simps body_def two_pending_def item_def subscription_def
        script_env_def scripted_def surroundings_def not_found_then_ok_def emit_def
        HasSuffix_def attempting_def request_def)
  from T wf have r: "fst (main_apply script_env ?w two_pending) = Returned"
    by blast
  show ?thesis by (intro conjI h1 h2 h3 h4 h5 h6 n1 n2 n3 a b c d r)
qed

section \<open>The apply loop as a whole\<close>

lemma main_apply_exit:
  "fst (main_apply env w cs) =
     (if fst (range_loop env (length cs) 0 (emit w (banner (length cs)), cs)) = Panicked
      then Panic_exit nil_dereference else Returned)"
proof -
  obtain e w2 cs' where r:
      "range_loop env (length cs) 0 (emit w (banner (length cs)), cs) = (e, w2, cs')"
    by (cases "range_loop env (length cs) 0 (emit w (banner (length cs)), cs)")
  show ?thesis
  proof (cases "e = Panicked")
    case True
    with r show ?thesis by (simp add: apply_panicked)
  next
    case False
    with r show ?thesis by (simp add: apply_saved)
  qed
qed

text \<open>
  Claim C1. A plan of pending items in which the insert succeeds for the first \<open>k\<close>
  items and answers the item after them with an error ending in \<^verbatim>\<open>quotaExceeded\<close>: the
  loop ends by its \<^verbatim>\<open>break\<close>, the first \<open>k\<close> items are imported, all the others are as
  they were, hence pending, and \<^verbatim>\<open>main\<close> hands this state to \<^verbatim>\<open>writeStatusesToFile\<close> and
  returns; when \<^verbatim>\<open>os.Create\<close> accepts the file, what the encoder wrote for this state is
  the content of the checkpoint file and the last entry of the trace.
\<close>

theorem C1_quota_halt_preserves_progress:
  assumes "k < length cs"
    and "\<forall>c\<in>set cs. \<not> Imported c"
    and "map fields_of (take (Suc k) cs) = map Some fs"
    and "replies (Insert_Do env) (target w) (map (\<lambda>(channelId, title). request channelId) fs)
           = replicate k None @ [Some e]"
    and "HasSuffix e ''quotaExceeded''"
  shows "\<exists>w2. range_loop env (length cs) 0 (emit w (banner (length cs)), cs)
               = (Broke, w2, map mark (take k cs) @ drop k cs)
          \<and> (\<forall>j<k. Imported ((map mark (take k cs) @ drop k cs) ! j))
          \<and> (\<forall>j. k \<le> j \<and> j < length cs \<longrightarrow>
                \<not> Imported ((map mark (take k cs) @ drop k cs) ! j))
          \<and> main_apply env w cs
               = (Returned, snd (writeStatusesToFile env w2 (map mark (take k cs) @ drop k cs)))
          \<and> (create_err w = None \<longrightarrow>
                gobfile (snd (main_apply env w cs))
                  = Some (fst (gob_Encode env (map mark (take k cs) @ drop k cs)))
                \<and> last (trace (snd (main_apply env w cs)))
                  = Encode_to_file (fst (gob_Encode env (map mark (take k cs) @ drop k cs))))"
proof -
  let ?cs' = "map mark (take k cs) @ drop k cs"
  let ?w1 = "emit w (banner (length cs))"
  have pend: "\<forall>j. 0 \<le> j \<and> j \<le> 0 + k \<longrightarrow> \<not> Imported (cs ! j)"
    using assms(1,2) by simp
  have tgt: "target ?w1 = target w" by (simp add: emit_def)
  from loop_quota_halt[OF refl assms(5), of 0 k cs fs env ?w1] assms(1,3,4) pend tgt
  obtain w2 cs' where run: "range_loop env (length cs) 0 (?w1, cs) = (Broke, w2, cs')"
    and len: "length cs' = length cs"
    and nth: "\<forall>j<length cs. cs' ! j = (if 0 \<le> j \<and> j < 0 + k then mark (cs ! j) else cs ! j)"
    by auto
  have eq: "cs' = ?cs'"
  proof (rule nth_equalityI)
    show "length cs' = length ?cs'" using len assms(1) by simp
  next
    fix j assume "j < length cs'"
    with len have j: "j < length cs" by simp
    with nth assms(1) show "cs' ! j = ?cs' ! j"
      by (simp add: nth_append min_def)
  qed
  have imp: "\<forall>j<k. Imported (?cs' ! j)"
    using assms(1) by (simp add: nth_append mark_def)
  have pen: "\<forall>j. k \<le> j \<and> j < length cs \<longrightarrow> \<not> Imported (?cs' ! j)"
    using assms(1,2) by (simp add: nth_append min_def)
  have m: "main_apply env w cs = (Returned, snd (writeStatusesToFile env w2 ?cs'))"
    using apply_saved[OF run] eq by simp
  have ce: "create_err w2 = create_err w"
    using loop_frame[OF run] by (simp add: emit_def)
  have saved: "create_err w = None \<longrightarrow>
      gobfile (snd (main_apply env w cs)) = Some (fst (gob_Encode env ?cs'))
      \<and> last (trace (snd (main_apply env w cs))) = Encode_to_file (fst (gob_Encode env ?cs'))"
    using ce by (simp add: m write_done emit_def)
  note run' = run[unfolded eq]
  show ?thesis
    by (intro exI[of _ w2] conjI run' imp pen m saved)
qed

theorem C1_quota_halt_preserves_progress_witness:
  "fst (range_loop script_env (length three_pending) 0
      (emit (surroundings None quota_after_one) (banner (length three_pending)),
       three_pending))
     = Broke
   \<and> snd (snd (range_loop script_env (length three_pending) 0
      (emit (surroundings None quota_after_one) (banner (length three_pending)),
       three_pending)))
     = [item ''UC1'' ''One'' True, item ''UC2'' ''Two'' False, item ''UC3'' ''Three'' False]
   \<and> fst (main_apply script_env (surroundings None quota_after_one) three_pending) = Returned
   \<and> gobfile (snd (main_apply script_env (surroundings None quota_after_one) three_pending))
     = Some (Some
        [item ''UC1'' ''One'' True, item ''UC2'' ''Two'' False, item ''UC3'' ''Three'' False])"
proof -
  let ?w = "surroundings None quota_after_one
              :: (ChannelImportStatus list option, error option list) world"
  let ?done = "[item ''UC1'' ''One'' True, item ''UC2'' ''Two'' False,
                item ''UC3'' ''Three'' False]"
  have h1: "(1::nat) < length three_pending" by (simp add: three_pending_def)
  have h2: "\<forall>c\<in>set three_pending. \<not> Imported c"
    by (simp add: three_pending_def item_def)
  have h3: "map fields_of (take (Suc 1) three_pending)
      = map Some [(''UC1'', ''One''), (''UC2'', ''Two'')]"
    by (simp add: three_pending_def fields_of_def item_def subscription_def)
  have h4: "replies (Insert_Do script_env) (target ?w)
      (map (\<lambda>(channelId, title). request channelId) [(''UC1'', ''One''), (''UC2'', ''Two'')])
      = replicate 1 None @ [Some ''googleapi: Error 403: quotaExceeded'']"
    by (simp add: script_env_def scripted_def surroundings_def quota_after_one_def)
  have h5: "HasSuffix ''googleapi: Error 403: quotaExceeded'' ''quotaExceeded''"
    by (simp add: HasSuffix_def)
  have c: "create_err ?w = None" by (simp add: surroundings_def)
  have m: "map mark (take 1 three_pending) @ drop 1 three_pending = ?done"
    by (simp add: three_pending_def mark_def item_def)
  have e: "fst (gob_Encode script_env ?done) = Some ?done"
    by (simp add: script_env_def plain_Encode_def)
  from C1_quota_halt_preserves_progress[OF h1 h2 h3 h4 h5, unfolded m e]
  obtain w2 where r: "range_loop script_env (length three_pending) 0
        (emit ?w (banner (length three_pending)), three_pending) = (Broke, w2, ?done)"
    and a: "main_apply script_env ?w three_pending
        = (Returned, snd (writeStatusesToFile script_env w2 ?done))"
    and g: "create_err ?w = None \<longrightarrow>
        gobfile (snd (main_apply script_env ?w three_pending)) = Some (Some ?done)
        \<and> last (trace (snd (main_apply script_env ?w three_pending)))
            = Encode_to_file (Some ?done)"
    by (elim exE conjE)
  from g c have g': "gobfile (snd (main_apply script_env ?w three_pending)) = Some (Some ?done)"
    by (rule mp[THEN conjunct1])
  have p1: "fst (range_loop script_env (length three_pending) 0
        (emit ?w (banner (length three_pending)), three_pending)) = Broke"
    by (simp only: r fst_conv)
  have p2: "snd (snd (range_loop script_env (length three_pending) 0
        (emit ?w (banner (length three_pending)), three_pending))) = ?done"
    by (simp only: r snd_conv)
  have p3: "fst (main_apply script_env ?w three_pending) = Returned"
    by (simp only: a fst_conv)
  show ?thesis
    by (intro conjI p1 p2 p3 g')
qed

text \<open>
  Claim C2. An item that is imported stays imported: after one pass through the loop
  body at any index, after the loop run from any index, and after any number of runs
  of the loop one after the other, each in whatever surroundings. Through the
  checkpoint file the same holds for any number of runs of the whole program, as long
  as the file keeps opening and the codec encodes every state and decodes what it
  encoded: the checkpoint then holds the same channels in the same order, the item
  still imported.
\<close>

theorem C2_imported_is_never_reverted:
  assumes "j < length cs" and "Imported (cs ! j)"
  shows "Imported (snd (snd (body env index (w, cs))) ! j)
       \<and> Imported (snd (snd (range_loop env n index (w, cs))) ! j)
       \<and> Imported (apply_runs env ws cs ! j)
       \<and> length (apply_runs env ws cs) = length cs
       \<and> (gob_roundtrip env \<and> gob_total env \<and> checkpoint env w = Some cs \<longrightarrow>
            (\<exists>cs'. checkpoint env (main_runs env srvs w) = Some cs'
                  \<and> length cs' = length cs \<and> map Channel cs' = map Channel cs
                  \<and> Imported (cs' ! j)))"
proof -
  obtain c w1 cs1 where b: "body env index (w, cs) = (c, w1, cs1)"
    by (cases "body env index (w, cs)")
  have 1: "Imported (snd (snd (body env index (w, cs))) ! j)"
    using advancesD(3)[OF body_advances[OF b] assms] b by simp
  obtain e w2 cs2 where r: "range_loop env n index (w, cs) = (e, w2, cs2)"
    by (cases "range_loop env n index (w, cs)")
  have 2: "Imported (snd (snd (range_loop env n index (w, cs))) ! j)"
    using advancesD(3)[OF loop_advances[OF r] assms] r by simp
  have 3: "Imported (apply_runs env ws cs ! j)"
    by (rule advancesD(3)[OF apply_runs_advances assms])
  have 4: "length (apply_runs env ws cs) = length cs"
    by (rule advancesD(1)[OF apply_runs_advances])
  have 5: "gob_roundtrip env \<and> gob_total env \<and> checkpoint env w = Some cs \<longrightarrow>
            (\<exists>cs'. checkpoint env (main_runs env srvs w) = Some cs'
                  \<and> length cs' = length cs \<and> map Channel cs' = map Channel cs
                  \<and> Imported (cs' ! j))"
  proof (intro impI, elim conjE)
    assume "gob_roundtrip env" "gob_total env" "checkpoint env w = Some cs"
    from main_runs_checkpoint[OF this] obtain cs'
      where cp: "checkpoint env (main_runs env srvs w) = Some cs'" and adv: "advances cs cs'"
      by blast
    from cp advancesD(1)[OF adv] advancesD(2)[OF adv] advancesD(3)[OF adv assms]
    show "\<exists>cs'. checkpoint env (main_runs env srvs w) = Some cs'
                  \<and> length cs' = length cs \<and> map Channel cs' = map Channel cs
                  \<and> Imported (cs' ! j)"
      by blast
  qed
  from 1 2 3 4 5 show ?thesis by blast
qed

lemma script_env_roundtrip: "gob_roundtrip script_env"
  by (simp add: gob_roundtrip_def script_env_def plain_Encode_def plain_Decode_def)

lemma script_env_total: "gob_total script_env"
  by (simp add: gob_total_def script_env_def plain_Encode_def)

theorem C2_imported_is_never_reverted_witness:
  "(0::nat) < length one_of_two \<and> Imported (one_of_two ! 0)
   \<and> Imported (snd (snd (body script_env 1 (surroundings None [None], one_of_two))) ! 0)
   \<and> Imported (snd (snd (range_loop script_env 2 0 (surroundings None [None], one_of_two))) ! 0)
   \<and> Imported (apply_runs script_env
        [surroundings None quota_after_one, surroundings None [None]] one_of_two ! 0)
   \<and> (\<exists>cs'. checkpoint script_env
          (main_runs script_env [quota_after_one, [None]]
             (surroundings (Some (Some one_of_two)) [])) = Some cs'
        \<and> length cs' = length one_of_two \<and> map Channel cs' = map Channel one_of_two
        \<and> Imported (cs' ! 0))"
proof -
  let ?w = "surroundings None [None]
              :: (ChannelImportStatus list option, error option list) world"
  let ?v = "surroundings (Some (Some one_of_two)) []
              :: (ChannelImportStatus list option, error option list) world"
  have h1: "(0::nat) < length one_of_two" by (simp add: one_of_two_def)
  have h2: "Imported (one_of_two ! 0)" by (simp add: one_of_two_def item_def)
  have cp: "checkpoint script_env ?v = Some one_of_two"
    by (simp add: checkpoint_def os_Open_def surroundings_def script_env_def plain_Decode_def)
  note T = C2_imported_is_never_reverted[OF h1 h2, of script_env _ _ _ _
      "[quota_after_one, [None]]"]
  have a: "Imported (snd (snd (body script_env 1 (?w, one_of_two))) ! 0)"
    by (rule T[THEN conjunct1])
  have b: "Imported (snd (snd (range_loop script_env 2 0 (?w, one_of_two))) ! 0)"
    by (rule T[THEN conjunct2, THEN conjunct1])
  have c: "Imported (apply_runs script_env
        [surroundings None quota_after_one, surroundings None [None]] one_of_two ! 0)"
    by (rule T[THEN conjunct2, THEN conjunct2, THEN conjunct1])
  have d: "\<exists>cs'. checkpoint script_env (main_runs script_env [quota_after_one, [None]] ?v)
          = Some cs'
        \<and> length cs' = length one_of_two \<and> map Channel cs' = map Channel one_of_two
        \<and> Imported (cs' ! 0)"
    by (rule T[THEN conjunct2, THEN conjunct2, THEN conjunct2, THEN conjunct2, THEN mp])
       (intro conjI script_env_roundtrip script_env_total cp)
  show ?thesis
    by (intro conjI h1 h2 a b c d)
qed

text \<open>
  Claim C10. Two runs of the loop that start from the same transfer state, against
  destinations that answer every insert request by one and the same table of replies,
  end the same way and leave the same transfer state, and \<^verbatim>\<open>main\<close> exits the same way,
  whatever else differs between the two runs: the state of the destinations, the
  codec, the files, what was printed before.
\<close>

theorem C10_same_replies_same_result:
  assumes "\<forall>srv p. fst (Insert_Do env1 srv p) = response p"
    and "\<forall>srv p. fst (Insert_Do env2 srv p) = response p"
  shows "fst (range_loop env1 (length cs) 0 (w1, cs)) = fst (range_loop env2 (length cs) 0 (w2, cs))
       \<and> snd (snd (range_loop env1 (length cs) 0 (w1, cs)))
           = snd (snd (range_loop env2 (length cs) 0 (w2, cs)))
       \<and> fst (main_apply env1 w1 cs) = fst (main_apply env2 w2 cs)"
proof -
  have sim: "\<forall>s1 s2 p. (\<lambda>_ _. True) s1 s2 \<longrightarrow>
      fst (Insert_Do env1 s1 p) = fst (Insert_Do env2 s2 p)
      \<and> (\<lambda>_ _. True) (snd (Insert_Do env1 s1 p)) (snd (Insert_Do env2 s2 p))"
    using assms by simp
  have L: "fst (range_loop env1 (length cs) 0 (v1, cs)) = fst (range_loop env2 (length cs) 0 (v2, cs))
       \<and> snd (snd (range_loop env1 (length cs) 0 (v1, cs)))
           = snd (snd (range_loop env2 (length cs) 0 (v2, cs)))" for v1 v2
    by (rule loop_same_replies[OF sim]) simp
  from L[of w1 w2] L[of "emit w1 (banner (length cs))" "emit w2 (banner (length cs))"]
  show ?thesis
    by (simp add: main_apply_exit)
qed

theorem C10_same_replies_same_result_witness:
  "fst (range_loop (table_env (quota_on ''UC2'')) (length three_pending) 0
          (surroundings None 0, three_pending))
     = fst (range_loop (table_env (quota_on ''UC2'')) (length three_pending) 0
          (surroundings (Some None) 7, three_pending))
   \<and> snd (snd (range_loop (table_env (quota_on ''UC2'')) (length three_pending) 0
          (surroundings None 0, three_pending)))
     = snd (snd (range_loop (table_env (quota_on ''UC2'')) (length three_pending) 0
          (surroundings (Some None) 7, three_pending)))
   \<and> fst (main_apply (table_env (quota_on ''UC2'')) (surroundings None 0) three_pending)
     = fst (main_apply (table_env (quota_on ''UC2'')) (surroundings (Some None) 7) three_pending)
   \<and> snd (snd (range_loop (table_env (quota_on ''UC2'')) (length three_pending) 0
          (surroundings None 0, three_pending)))
     = [item ''UC1'' ''One'' True, item ''UC2'' ''Two'' False, item ''UC3'' ''Three'' False]"
proof -
  have h: "\<forall>srv p. fst (Insert_Do (table_env (quota_on ''UC2'')) srv p) = quota_on ''UC2'' p"
    by (simp add: table_env_def answering_def)
  have v: "snd (snd (range_loop (table_env (quota_on ''UC2'')) (length three_pending) 0
          (surroundings None 0, three_pending)))
     = [item ''UC1'' ''One'' True, item ''UC2'' ''Two'' False, item ''UC3'' ''Three'' False]"
    by (simp add: range_loop.simps body_def three_pending_def item_def subscription_def
        table_env_def answering_def quota_on_def request_def surroundings_def emit_def
        HasSuffix_def)
  from C10_same_replies_same_result[OF h h, of three_pending "surroundings None 0"
      "surroundings (Some None) 7"] v
  show ?thesis by simp
qed

text \<open>
  Claim C4, as stated, fails. The transfer state \<open>one_of_two\<close> has one imported item; the
  destination \<open>subscribing\<close> reports the duplicate signature for every channel it already
  holds. When it holds both channels, the run marks the second item imported, so the
  set of imported items is not what it was; when it holds only the first, the run
  subscribes it to the second, a mutation of the destination.
\<close>

theorem C4_counterexample:
  "Imported (one_of_two ! 0)
   \<and> map Imported (snd (snd (range_loop account_env (length one_of_two) 0
          (surroundings None [''UC1'', ''UC2''], one_of_two))))
       \<noteq> map Imported one_of_two
   \<and> target (fst (snd (range_loop account_env (length one_of_two) 0
          (surroundings None [''UC1''], one_of_two))))
       \<noteq> [''UC1'']"
  by (simp add: range_loop.simps body_def one_of_two_def item_def subscription_def
      account_env_def subscribing_def surroundings_def emit_def HasSuffix_def)

text \<open>
  Claim C4, amended. A run of the loop leaves the channels and their order as they
  were and every imported item imported; the insert requests it issues are, in order,
  requests that pending items are due, none for an imported item; an imported item is
  passed over with the line \<^verbatim>\<open>already imported, skipping\<close> and the state untouched; and
  when every item is imported (and can be dereferenced) the run goes through the whole
  list, changes nothing in the transfer state, issues no insert and leaves the
  destination as it was.
\<close>

theorem C4_rerun_skips_imported:
  assumes "range_loop env (length cs) 0 (w, cs) = (e, w', cs')"
  shows "length cs' = length cs \<and> map Channel cs' = map Channel cs
       \<and> (\<forall>j<length cs. Imported (cs ! j) \<longrightarrow> Imported (cs' ! j))
       \<and> (\<exists>evs. trace w' = trace w @ evs \<and> prefix (inserts evs) (requests cs))
       \<and> (\<forall>i channelId title v.
            Imported (cs ! i) \<and> fields_of (cs ! i) = Some (channelId, title) \<longrightarrow>
            due (cs ! i) = None
            \<and> body env i (v, cs) =
                (Continue,
                 emit (emit v (attempting i title))
                   (Printf ''already imported, skipping\<newline>'' []),
                 cs))
       \<and> ((\<forall>c\<in>set cs. Imported c \<and> fields_of c \<noteq> None) \<longrightarrow>
            e = Exhausted \<and> cs' = cs \<and> target w' = target w
            \<and> inserts (trace w') = inserts (trace w))"
proof -
  note adv = loop_advances[OF assms]
  from loop_trace[OF refl assms] obtain evs where tr: "trace w' = trace w @ evs"
    and pre: "prefix (inserts evs) (requests cs)" by auto
  have 4: "\<exists>evs. trace w' = trace w @ evs \<and> prefix (inserts evs) (requests cs)"
    using tr pre by blast
  have 5: "\<forall>i channelId title v.
            Imported (cs ! i) \<and> fields_of (cs ! i) = Some (channelId, title) \<longrightarrow>
            due (cs ! i) = None
            \<and> body env i (v, cs) =
                (Continue,
                 emit (emit v (attempting i title))
                   (Printf ''already imported, skipping\<newline>'' []),
                 cs)"
    by (simp add: body_imported due_def)
  have 6: "(\<forall>c\<in>set cs. Imported c \<and> fields_of c \<noteq> None) \<longrightarrow>
            e = Exhausted \<and> cs' = cs \<and> target w' = target w
            \<and> inserts (trace w') = inserts (trace w)"
  proof
    assume all: "\<forall>c\<in>set cs. Imported c \<and> fields_of c \<noteq> None"
    from loop_all_imported[OF refl all, of env 0 w] assms
    have a: "e = Exhausted" "cs' = cs" "target w' = target w" by auto
    from all have "requests cs = []"
      by (simp add: requests_def map_filter_def due_def filter_empty_conv)
    with pre tr have "inserts (trace w') = inserts (trace w)"
      by (simp add: inserts_append)
    with a show "e = Exhausted \<and> cs' = cs \<and> target w' = target w
            \<and> inserts (trace w') = inserts (trace w)" by simp
  qed
  from advancesD(1)[OF adv] advancesD(2)[OF adv] advancesD(3)[OF adv] 4 5 6
  show ?thesis by (intro conjI) blast+
qed

theorem C4_rerun_skips_imported_witness:
  "range_loop account_env (length one_of_two) 0 (surroundings None [''UC1'', ''UC2''], one_of_two)
     = (Exhausted,
        (surroundings None [''UC1'', ''UC2''])\<lparr>trace :=
          [attempting 0 ''One'', Printf ''already imported, skipping\<newline>'' [],
           attempting 1 ''Two'', Insert_call (request ''UC2''),
           Printf ''previously subscribed, marking as imported (%v)\<newline>''
             [S ''googleapi: Error 400: subscriptionDuplicate'']]\<rparr>,
        [item ''UC1'' ''One'' True, item ''UC2'' ''Two'' True])
   \<and> map Channel [item ''UC1'' ''One'' True, item ''UC2'' ''Two'' True] = map Channel one_of_two
   \<and> Imported (one_of_two ! 0)
   \<and> Imported ([item ''UC1'' ''One'' True, item ''UC2'' ''Two'' True] ! 0)
   \<and> requests one_of_two = [request ''UC2'']
   \<and> body account_env 0 (surroundings None [''UC1'', ''UC2''], one_of_two)
       = (Continue,
          emit (emit (surroundings None [''UC1'', ''UC2'']) (attempting 0 ''One''))
            (Printf ''already imported, skipping\<newline>'' []),
          one_of_two)"
proof -
  let ?w = "surroundings None [''UC1'', ''UC2'']
              :: (ChannelImportStatus list option, string list) world"
  let ?w' = "?w\<lparr>trace :=
          [attempting 0 ''One'', Printf ''already imported, skipping\<newline>'' [],
           attempting 1 ''Two'', Insert_call (request ''UC2''),
           Printf ''previously subscribed, marking as imported (%v)\<newline>''
             [S ''googleapi: Error 400: subscriptionDuplicate'']]\<rparr>"
  let ?cs' = "[item ''UC1'' ''One'' True, item ''UC2'' ''Two'' True]"
  have run: "range_loop account_env (length one_of_two) 0 (?w, one_of_two)
      = (Exhausted, ?w', ?cs')"
    by (simp add: range_loop.simps body_def one_of_two_def item_def subscription_def
        account_env_def subscribing_def surroundings_def emit_def HasSuffix_def
        attempting_def request_def)
  note T = C4_rerun_skips_imported[OF run]
  have i0: "Imported (one_of_two ! 0)" by (simp add: one_of_two_def item_def)
  have f0: "fields_of (one_of_two ! 0) = Some (''UC1'', ''One'')"
    by (simp add: one_of_two_def item_def subscription_def fields_of_def)
  have a: "map Channel ?cs' = map Channel one_of_two"
    by (rule T[THEN conjunct2, THEN conjunct1])
  have "(0::nat) < length one_of_two" by (simp add: one_of_two_def)
  with T i0 have b: "Imported (?cs' ! 0)" by blast
  have c: "requests one_of_two = [request ''UC2'']"
    by (simp add: requests_def map_filter_def due_def one_of_two_def item_def
        subscription_def fields_of_def)
  from T i0 f0 have d: "body account_env 0 (?w, one_of_two)
       = (Continue, emit (emit ?w (attempting 0 ''One''))
            (Printf ''already imported, skipping\<newline>'' []), one_of_two)"
    by blast
  show ?thesis by (intro conjI run a i0 b c d)
qed

section \<open>The first run\<close>

lemma main_apply_trace:
  "\<exists>evs. trace (snd (main_apply env w cs)) = trace w @ evs \<and> listings evs = 0"
proof -
  obtain e w2 cs' where r:
      "range_loop env (length cs) 0 (emit w (banner (length cs)), cs) = (e, w2, cs')"
    by (cases "range_loop env (length cs) 0 (emit w (banner (length cs)), cs)")
  from loop_trace[OF refl r] obtain evs where t2: "trace w2 = trace w @ banner (length cs) # evs"
    and l2: "listings evs = 0"
    by (auto simp: emit_def)
  have lb: "listings (banner (length cs) # evs) = 0"
    using l2 by (simp add: banner_def)
  show ?thesis
  proof (cases "e = Panicked")
    case True
    with r t2 lb show ?thesis by (auto simp: apply_panicked)
  next
    case False
    from write_trace[of env w2 cs'] obtain evs3
      where t3: "trace (snd (writeStatusesToFile env w2 cs')) = trace w2 @ evs3"
        and l3: "listings evs3 = 0" by blast
    have "trace (snd (main_apply env w cs)) = trace w @ (banner (length cs) # evs) @ evs3"
      using apply_saved[OF r False] t2 t3 by simp
    moreover have "listings ((banner (length cs) # evs) @ evs3) = 0"
      using lb l3 by (simp only: listings_append)
    ultimately show ?thesis by blast
  qed
qed

lemma plan_fresh:
  "os_Open w = Inl oe \<Longrightarrow> source w = (pages, None) \<Longrightarrow>
   main_plan env w =
     (case writeStatusesToFile env (listed w) (fresh (concat pages)) of
        (None, w4) \<Rightarrow> (Inr (fresh (concat pages)), w4)
      | (Some e, w4) \<Rightarrow> (Inl (Panic_exit e), w4))"
  unfolding listed_def fresh_def by (rule plan_fetch)

text \<open>
  Claim C7. On a run that finds no checkpoint to open and whose enumeration of the
  source account succeeds, the run as a whole makes exactly one listing call; the
  transfer state is the enumerated channels, page after page in the order delivered,
  every item pending; and this state is handed to \<^verbatim>\<open>writeStatusesToFile\<close> before any
  insert request. When the save succeeds the file holds what the encoder wrote for the
  state, the save is the last entry of the trace, and everything else the run does (all
  its inserts) happens from there; when the save fails the run panics with no insert
  issued.
\<close>

theorem C7_first_run_snapshot:
  assumes "os_Open w = Inl oe" and "source w = (pages, None)"
  shows "listings (trace (snd (main env w))) = Suc (listings (trace w))
       \<and> map Channel (fresh (concat pages)) = concat pages
       \<and> (\<forall>c\<in>set (fresh (concat pages)). \<not> Imported c)
       \<and> (writeStatusesToFile env (listed w) (fresh (concat pages)) = (None, w4) \<longrightarrow>
            main_plan env w = (Inr (fresh (concat pages)), w4)
            \<and> main env w = main_apply env w4 (fresh (concat pages))
            \<and> gobfile w4 = Some (fst (gob_Encode env (fresh (concat pages))))
            \<and> trace w4 = trace (listed w) @
                 [Println ''Encoding channelStatuses to file'',
                  Encode_to_file (fst (gob_Encode env (fresh (concat pages))))]
            \<and> inserts (trace w4) = inserts (trace w)
            \<and> (\<exists>evs. trace (snd (main env w)) = trace w4 @ evs))
       \<and> (writeStatusesToFile env (listed w) (fresh (concat pages)) = (Some err, w4) \<longrightarrow>
            main env w = (Panic_exit err, w4)
            \<and> inserts (trace w4) = inserts (trace w))"
proof -
  let ?cs = "fresh (concat pages)"
  obtain r v where wr: "writeStatusesToFile env (listed w) ?cs = (r, v)"
    by (cases "writeStatusesToFile env (listed w) ?cs")
  from write_trace[of env "listed w" ?cs] wr obtain evs
    where tv: "trace v = trace (listed w) @ evs" and lv: "listings evs = 0"
      and iv: "inserts evs = []" by auto
  have tl: "trace (listed w) = trace w @
      [Println ''Encoded file doesnt exist, fetching subscriptions'', List_call,
       Println ''Importing into array'']"
    by (simp add: listed_def emit_def)
  have lv': "listings (trace v) = Suc (listings (trace w))"
    by (simp add: tv tl listings_append lv)
  have iv': "inserts (trace v) = inserts (trace w)"
    by (simp add: tv tl inserts_append iv)
  have 1: "listings (trace (snd (main env w))) = Suc (listings (trace w))"
  proof (cases r)
    case None
    with wr have m: "main env w = main_apply env v ?cs"
      by (simp add: main_def plan_fresh[OF assms])
    from main_apply_trace[of env v ?cs] obtain evs2
      where "trace (snd (main_apply env v ?cs)) = trace v @ evs2" and "listings evs2 = 0"
      by blast
    with m lv' show ?thesis by (simp add: listings_append)
  next
    case (Some e)
    with wr have "main env w = (Panic_exit e, v)"
      by (simp add: main_def plan_fresh[OF assms])
    with lv' show ?thesis by simp
  qed
  have 2: "map Channel ?cs = concat pages"
    by (simp add: fresh_def comp_def)
  have 3: "\<forall>c\<in>set ?cs. \<not> Imported c"
    by (auto simp: fresh_def)
  have 4: "writeStatusesToFile env (listed w) ?cs = (None, w4) \<longrightarrow>
            main_plan env w = (Inr ?cs, w4)
            \<and> main env w = main_apply env w4 ?cs
            \<and> gobfile w4 = Some (fst (gob_Encode env ?cs))
            \<and> trace w4 = trace (listed w) @
                 [Println ''Encoding channelStatuses to file'',
                  Encode_to_file (fst (gob_Encode env ?cs))]
            \<and> inserts (trace w4) = inserts (trace w)
            \<and> (\<exists>evs. trace (snd (main env w)) = trace w4 @ evs)"
  proof
    assume ok: "writeStatusesToFile env (listed w) ?cs = (None, w4)"
    with wr have v: "v = w4" and r: "r = None" by simp_all
    have p: "main_plan env w = (Inr ?cs, w4)"
      using ok by (simp add: plan_fresh[OF assms])
    then have m: "main env w = main_apply env w4 ?cs"
      by (simp add: main_def)
    have ce: "create_err (listed w) = None"
      using ok by (cases "create_err (listed w)") (simp_all add: write_refused)
    from ok have w4: "w4 = emit ((emit (listed w) (Println ''Encoding channelStatuses to file''))
              \<lparr>gobfile := Some (fst (gob_Encode env ?cs))\<rparr>)
        (Encode_to_file (fst (gob_Encode env ?cs)))"
      by (simp add: write_done[OF ce])
    have g: "gobfile w4 = Some (fst (gob_Encode env ?cs))"
      by (subst w4) (simp add: emit_def)
    have t: "trace w4 = trace (listed w) @
                 [Println ''Encoding channelStatuses to file'',
                  Encode_to_file (fst (gob_Encode env ?cs))]"
      by (subst w4) (simp add: emit_def)
    from main_apply_trace[of env w4 ?cs] m
    have e: "\<exists>evs. trace (snd (main env w)) = trace w4 @ evs" by auto
    from p m g t iv'[unfolded v] e
    show "main_plan env w = (Inr ?cs, w4)
            \<and> main env w = main_apply env w4 ?cs
            \<and> gobfile w4 = Some (fst (gob_Encode env ?cs))
            \<and> trace w4 = trace (listed w) @
                 [Println ''Encoding channelStatuses to file'',
                  Encode_to_file (fst (gob_Encode env ?cs))]
            \<and> inserts (trace w4) = inserts (trace w)
            \<and> (\<exists>evs. trace (snd (main env w)) = trace w4 @ evs)"
      by (intro conjI)
  qed
  have 5: "writeStatusesToFile env (listed w) ?cs = (Some err, w4) \<longrightarrow>
            main env w = (Panic_exit err, w4) \<and> inserts (trace w4) = inserts (trace w)"
  proof
    assume bad: "writeStatusesToFile env (listed w) ?cs = (Some err, w4)"
    with wr have v: "v = w4" by simp
    from bad have "main env w = (Panic_exit err, w4)"
      by (simp add: main_def plan_fresh[OF assms])
    with iv'[unfolded v]
    show "main env w = (Panic_exit err, w4) \<and> inserts (trace w4) = inserts (trace w)"
      by simp
  qed
  show ?thesis by (intro conjI 1 2 3 4 5)
qed

theorem C7_first_run_snapshot_witness:
  "os_Open first_run = Inl ''open importStatus.gob: no such file or directory''
   \<and> source first_run = (two_pages, None)
   \<and> fresh (concat two_pages) = three_pending
   \<and> listings (trace (snd (main script_env first_run))) = Suc (listings (trace first_run))
   \<and> main_plan script_env first_run =
       (Inr three_pending,
        first_run\<lparr>gobfile := Some (Some three_pending),
          trace := [Println ''Encoded file doesnt exist, fetching subscriptions'', List_call,
                    Println ''Importing into array'', Println ''Encoding channelStatuses to file'',
                    Encode_to_file (Some three_pending)]\<rparr>)
   \<and> main script_env first_run =
       main_apply script_env
         (first_run\<lparr>gobfile := Some (Some three_pending),
          trace := [Println ''Encoded file doesnt exist, fetching subscriptions'', List_call,
                    Println ''Importing into array'', Println ''Encoding channelStatuses to file'',
                    Encode_to_file (Some three_pending)]\<rparr>)
         three_pending"
proof -
  let ?w4 = "first_run\<lparr>gobfile := Some (Some three_pending),
          trace := [Println ''Encoded file doesnt exist, fetching subscriptions'', List_call,
                    Println ''Importing into array'', Println ''Encoding channelStatuses to file'',
                    Encode_to_file (Some three_pending)]\<rparr>"
  have h1: "os_Open first_run = Inl ''open importStatus.gob: no such file or directory''"
    by (simp add: os_Open_def first_run_def surroundings_def)
  have h2: "source first_run = (two_pages, None)"
    by (simp add: first_run_def surroundings_def)
  have f: "fresh (concat two_pages) = three_pending"
    by (simp add: fresh_def two_pages_def three_pending_def item_def)
  have wr: "writeStatusesToFile script_env (listed first_run) (fresh (concat two_pages))
      = (None, ?w4)"
    unfolding f
    by (simp add: writeStatusesToFile_def listed_def emit_def first_run_def surroundings_def
        script_env_def plain_Encode_def)
  note T = C7_first_run_snapshot[OF h1 h2, of script_env ?w4, unfolded f]
  have a: "listings (trace (snd (main script_env first_run))) = Suc (listings (trace first_run))"
    by (rule T[THEN conjunct1])
  from T wr[unfolded f] have b: "main_plan script_env first_run = (Inr three_pending, ?w4)"
    and c: "main script_env first_run = main_apply script_env ?w4 three_pending"
    by blast+
  show ?thesis by (intro conjI h1 h2 f a b c)
qed

section \<open>The checkpoint file\<close>

lemma cycles_keep:
  assumes rt: "gob_roundtrip env" and enc: "gob_Encode env cs = (b, None)"
  shows "open_err w = None \<Longrightarrow> create_err w = None \<Longrightarrow> gobfile w = Some b \<Longrightarrow>
    open_err (cycles n env w) = None \<and> create_err (cycles n env w) = None
    \<and> gobfile (cycles n env w) = Some b"
proof (induction n arbitrary: w)
  case 0
  then show ?case by simp
next
  case (Suc n)
  from rt enc have dec: "gob_Decode env b [] = (cs, None)"
    by (simp add: gob_roundtrip_def)
  from Suc.prems have o: "os_Open w = Inr b" by (simp add: os_Open_def)
  let ?w1 = "emit w (Println ''Encoded file exists, decoding into channelStatuses'')"
  have p: "main_plan env w = (Inr cs, ?w1)"
    by (simp add: plan_load[OF o] dec)
  have c1: "create_err ?w1 = None" using Suc.prems by (simp add: emit_def)
  have "cycles (Suc n) env w = cycles n env (snd (writeStatusesToFile env ?w1 cs))"
    by (simp add: p)
  moreover have "open_err (snd (writeStatusesToFile env ?w1 cs)) = None"
    "create_err (snd (writeStatusesToFile env ?w1 cs)) = None"
    "gobfile (snd (writeStatusesToFile env ?w1 cs)) = Some b"
    unfolding write_done[OF c1] enc using Suc.prems by (simp_all add: emit_def)
  ultimately show ?case using Suc.IH by simp
qed

text \<open>
  Claim C8. Provided the codec decodes what it encoded, a transfer state that
  \<^verbatim>\<open>writeStatusesToFile\<close> saved without error is what the next start of the program loads
  from the file, item for item, as long as the file opens; loading leaves the file as
  it is, and the same state is loaded after any number of further cycles of loading and
  saving.
\<close>

theorem C8_checkpoint_roundtrip:
  assumes "gob_roundtrip env" and "open_err w = None"
    and "writeStatusesToFile env w cs = (None, w')"
  shows "fst (main_plan env w') = Inr cs
       \<and> gobfile (snd (main_plan env w')) = gobfile w'
       \<and> checkpoint env w' = Some cs
       \<and> fst (main_plan env (cycles n env w')) = Inr cs
       \<and> checkpoint env (cycles n env w') = Some cs"
proof -
  have ce: "create_err w = None"
    using assms(3) by (cases "create_err w") (simp_all add: write_refused)
  obtain b r where e0: "gob_Encode env cs = (b, r)" by (cases "gob_Encode env cs")
  with assms(3) have r: "r = None" and w': "w' =
      emit ((emit w (Println ''Encoding channelStatuses to file''))\<lparr>gobfile := Some b\<rparr>)
        (Encode_to_file b)"
    by (simp_all add: write_done[OF ce])
  note enc = e0[unfolded r]
  from assms(1) enc have dec: "gob_Decode env b [] = (cs, None)"
    by (simp add: gob_roundtrip_def)
  have st: "open_err w' = None" "create_err w' = None" "gobfile w' = Some b"
    using assms(2) ce by (simp_all add: w' emit_def)
  have load: "fst (main_plan env v) = Inr cs \<and> gobfile (snd (main_plan env v)) = gobfile v
      \<and> checkpoint env v = Some cs"
    if "open_err v = None" "gobfile v = Some b" for v :: "('a, 'b) world"
  proof -
    from that have o: "os_Open v = Inr b" by (simp add: os_Open_def)
    show ?thesis
      by (simp add: plan_load[OF o] dec checkpoint_def o emit_def)
  qed
  from cycles_keep[OF assms(1) enc st, of n]
  have "open_err (cycles n env w') = None" "gobfile (cycles n env w') = Some b"
    by simp_all
  from load[OF st(1) st(3)] load[OF this] show ?thesis by simp
qed

theorem C8_checkpoint_roundtrip_witness:
  "gob_roundtrip script_env
   \<and> open_err (surroundings None [] :: (ChannelImportStatus list option, error option list) world)
       = None
   \<and> writeStatusesToFile script_env (surroundings None []) one_of_two =
       (None,
        (surroundings None [])\<lparr>gobfile := Some (Some one_of_two),
          trace := [Println ''Encoding channelStatuses to file'',
                    Encode_to_file (Some one_of_two)]\<rparr>)
   \<and> fst (main_plan script_env
        ((surroundings None [])\<lparr>gobfile := Some (Some one_of_two),
          trace := [Println ''Encoding channelStatuses to file'',
                    Encode_to_file (Some one_of_two)]\<rparr>))
      = Inr one_of_two
   \<and> fst (main_plan script_env (cycles 3 script_env
        ((surroundings None [])\<lparr>gobfile := Some (Some one_of_two),
          trace := [Println ''Encoding channelStatuses to file'',
                    Encode_to_file (Some one_of_two)]\<rparr>)))
      = Inr one_of_two"
proof -
  let ?w = "surroundings None [] :: (ChannelImportStatus list option, error option list) world"
  let ?w' = "?w\<lparr>gobfile := Some (Some one_of_two),
          trace := [Println ''Encoding channelStatuses to file'',
                    Encode_to_file (Some one_of_two)]\<rparr>"
  have h2: "open_err ?w = None" by (simp add: surroundings_def)
  have h3: "writeStatusesToFile script_env ?w one_of_two = (None, ?w')"
    by (simp add: writeStatusesToFile_def emit_def surroundings_def script_env_def
        plain_Encode_def)
  note T = C8_checkpoint_roundtrip[OF script_env_roundtrip h2 h3, of 3]
  have a: "fst (main_plan script_env ?w') = Inr one_of_two"
    by (rule T[THEN conjunct1])
  have b: "fst (main_plan script_env (cycles 3 script_env ?w')) = Inr one_of_two"
    by (rule T[THEN conjunct2, THEN conjunct2, THEN conjunct2, THEN conjunct1])
  show ?thesis by (intro conjI script_env_roundtrip h2 h3 a b)
qed

section \<open>Errors that are dropped\<close>

text \<open>
  Whatever \<^verbatim>\<open>Decode\<close> reported, the run goes on with the slice as the decoder left it
  (lemma \<open>main_loaded\<close>); and whenever \<^verbatim>\<open>os.Create\<close> refuses the file at the final save,
  the run returns normally with the surroundings as the loop left them.
\<close>

lemma final_save_refused:
  assumes "range_loop env (length cs) 0 (emit w (banner (length cs)), cs) = (e, w2, cs')"
    and "e \<noteq> Panicked" and "create_err w = Some err"
  shows "main_apply env w cs = (Returned, w2)"
proof -
  have "create_err w2 = Some err"
    using loop_frame[OF assms(1)] assms(3) by (simp add: emit_def)
  then show ?thesis
    by (simp add: apply_saved[OF assms(1,2)] write_refused)
qed

text \<open>
  Claim C3 does not hold of the code. The checkpoint file opens, the decoder reports an
  error and leaves the slice empty; line 180 drops the error, the run goes on with the
  empty state, prints the banner for zero channels and returns normally, having replaced
  the content of the file by the encoding of the empty state.
\<close>

theorem C3_malformed_checkpoint_is_overwritten:
  "os_Open malformed_checkpoint = Inr None
   \<and> gob_Decode script_env None [] = ([], Some ''unexpected EOF'')
   \<and> main script_env malformed_checkpoint =
       (Returned,
        malformed_checkpoint\<lparr>gobfile := Some (Some []),
          trace := [Println ''Encoded file exists, decoding into channelStatuses'',
                    banner 0,
                    Println ''Encoding channelStatuses to file'',
                    Encode_to_file (Some [])]\<rparr>)"
  by (simp add: main_def main_plan_def main_apply_def writeStatusesToFile_def os_Open_def
      range_loop.simps malformed_checkpoint_def surroundings_def script_env_def
      plain_Encode_def plain_Decode_def emit_def banner_def)

text \<open>
  Claim C9 does not hold of the code for the save of line 243. The run imports the one
  pending item, \<^verbatim>\<open>os.Create\<close> then refuses the file, \<^verbatim>\<open>writeStatusesToFile\<close> returns the
  error, and \<^verbatim>\<open>main\<close> returns normally: nothing in the trace tells of the failure, and
  the file still shows the item as pending.
\<close>

theorem C9_failed_final_save_is_silent:
  "main script_env readonly_checkpoint =
       (Returned,
        readonly_checkpoint\<lparr>target := [],
          trace := [Println ''Encoded file exists, decoding into channelStatuses'',
                    banner 1,
                    attempting 0 ''One'',
                    Insert_call (request ''UC1''),
                    Printf ''successfully subscribed to channel\<newline>'' []]\<rparr>)
   \<and> fst (writeStatusesToFile script_env
          (readonly_checkpoint\<lparr>target := [],
             trace := [Println ''Encoded file exists, decoding into channelStatuses'',
                       banner 1,
                       attempting 0 ''One'',
                       Insert_call (request ''UC1''),
                       Printf ''successfully subscribed to channel\<newline>'' []]\<rparr>)
          [item ''UC1'' ''One'' True])
       = Some ''open importStatus.gob: permission denied''
   \<and> gobfile (snd (main script_env readonly_checkpoint))
       = Some (Some [item ''UC1'' ''One'' False])"
  by (simp add: main_def main_plan_def main_apply_def writeStatusesToFile_def os_Open_def
      range_loop.simps body_def readonly_checkpoint_def surroundings_def script_env_def
      plain_Encode_def plain_Decode_def scripted_def emit_def banner_def attempting_def
      request_def item_def subscription_def)

end
